theory Spec2Isabelle
  imports
    Complex_Main
    "HOL-Library.Sublist"
    "HOL-Library.Char_ord"
    "HOL-Library.List_Lexorder"
begin

section \<open>JavaScript values used by the certificate generator\<close>

text \<open>
  Texts are \<^typ>\<open>string\<close>: the bytes of the text in UTF-8. A text that may be
  \<open>null\<close> is an \<open>option\<close>.

  The numbers of the store are the counter and the components of a date. They are
  doubles whose value is an integer, \<open>NaN\<close>, or an infinity. A double has 53 significant
  bits: an integer is a double when it has at most 53 bits up to a power of two, every
  other integer is rounded to the nearest one that is, and to the one with the even
  multiplier when two are as near; from \<open>2 ^ 1024\<close> on the result is an infinity.
\<close>

datatype number = NaN | Num int | PosInfinity | NegInfinity

fun bitLength :: "nat \<Rightarrow> nat" where
  "bitLength n = (if n = 0 then 0 else Suc (bitLength (n div 2)))"

declare bitLength.simps [simp del]

definition roundToDouble :: "int \<Rightarrow> int" where
  "roundToDouble k =
     (let m = nat \<bar>k\<bar>;
          q = 2 ^ (bitLength m - 53);
          n = m div q;
          r = m mod q
      in sgn k * int ((if q < 2 * r \<or> (2 * r = q \<and> odd n) then n + 1 else n) * q))"

definition toNumber :: "int \<Rightarrow> number" where
  "toNumber k =
     (let d = roundToDouble k
      in if 2 ^ 1024 \<le> d then PosInfinity
         else if d \<le> - (2 ^ 1024) then NegInfinity
         else Num d)"

datatype js_error = JsError string

text \<open>
  A character of a text is a run of its bytes: a byte that is not a continuation byte of
  UTF-8, with the continuation bytes that follow it.
\<close>

definition isContinuation :: "char \<Rightarrow> bool" where
  "isContinuation c = (128 \<le> (of_char c :: nat) \<and> (of_char c :: nat) < 192)"

function characters :: "string \<Rightarrow> string list" where
  "characters [] = []"
| "characters (c # s) = (c # takeWhile isContinuation s) # characters (dropWhile isContinuation s)"
  by pat_completeness auto
termination
  by (relation "measure length") (auto simp add: length_dropWhile_le less_Suc_eq_le)

text \<open>
  The white space of ECMAScript, which \<open>trim\<close> strips and \<open>parseInt\<close> skips: tab, line
  feed, vertical tab, form feed, carriage return, space, U+00A0, U+1680, U+2000 to
  U+200A, U+2028, U+2029, U+202F, U+205F, U+3000 and U+FEFF.
\<close>

definition whiteSpaces :: "string list" where
  "whiteSpaces =
     [[CHR 0x09], [CHR 0x0A], [CHR 0x0B], [CHR 0x0C], [CHR 0x0D], [CHR 0x20],
      [CHR 0xC2, CHR 0xA0],
      [CHR 0xE1, CHR 0x9A, CHR 0x80],
      [CHR 0xE2, CHR 0x80, CHR 0x80], [CHR 0xE2, CHR 0x80, CHR 0x81],
      [CHR 0xE2, CHR 0x80, CHR 0x82], [CHR 0xE2, CHR 0x80, CHR 0x83],
      [CHR 0xE2, CHR 0x80, CHR 0x84], [CHR 0xE2, CHR 0x80, CHR 0x85],
      [CHR 0xE2, CHR 0x80, CHR 0x86], [CHR 0xE2, CHR 0x80, CHR 0x87],
      [CHR 0xE2, CHR 0x80, CHR 0x88], [CHR 0xE2, CHR 0x80, CHR 0x89],
      [CHR 0xE2, CHR 0x80, CHR 0x8A],
      [CHR 0xE2, CHR 0x80, CHR 0xA8], [CHR 0xE2, CHR 0x80, CHR 0xA9],
      [CHR 0xE2, CHR 0x80, CHR 0xAF],
      [CHR 0xE2, CHR 0x81, CHR 0x9F],
      [CHR 0xE3, CHR 0x80, CHR 0x80],
      [CHR 0xEF, CHR 0xBB, CHR 0xBF]]"

definition isWhiteSpace :: "string \<Rightarrow> bool" where
  "isWhiteSpace ch = (ch \<in> set whiteSpaces)"

definition trimStart :: "string \<Rightarrow> string" where
  "trimStart s = concat (dropWhile isWhiteSpace (characters s))"

definition trim :: "string \<Rightarrow> string" where
  "trim s = concat (rev (dropWhile isWhiteSpace (rev (dropWhile isWhiteSpace (characters s)))))"

definition digitValue :: "char \<Rightarrow> nat" where
  "digitValue c =
     (let n = (of_char c :: nat)
      in if 48 \<le> n \<and> n \<le> 57 then n - 48
         else if 97 \<le> n \<and> n \<le> 122 then n - 87
         else if 65 \<le> n \<and> n \<le> 90 then n - 55
         else 36)"

definition digitsValue :: "nat \<Rightarrow> string \<Rightarrow> nat" where
  "digitsValue radix ds = foldl (\<lambda>a c. a * radix + digitValue c) 0 ds"

text \<open>
  \<open>parseInt(s)\<close> without a radix: leading white space is skipped, a sign is read, a
  prefix \<open>0x\<close> selects radix 16, and the longest run of digits of the radix is read;
  there is no such run exactly when the result is \<open>NaN\<close>, and otherwise the result is
  the double nearest to the integer read. (Past the 20th digit an implementation may read
  a digit as 0; the double of a text of up to 20 digits is the same in all of them.)
\<close>

definition parseInt :: "string \<Rightarrow> number" where
  "parseInt s =
     (let s1 = trimStart s;
          neg = (take 1 s1 = ''-'');
          s2 = (if take 1 s1 = ''-'' \<or> take 1 s1 = ''+'' then drop 1 s1 else s1);
          hex = (take 2 s2 = ''0x'' \<or> take 2 s2 = ''0X'');
          radix = (if hex then 16 else 10);
          s3 = (if hex then drop 2 s2 else s2);
          ds = takeWhile (\<lambda>c. digitValue c < radix) s3
      in if ds = [] then NaN
         else toNumber ((if neg then - 1 else 1) * int (digitsValue radix ds)))"

definition digitChar :: "nat \<Rightarrow> char" where
  "digitChar d = ''0123456789'' ! d"

fun decimal :: "nat \<Rightarrow> string" where
  "decimal n = (if n < 10 then [digitChar n] else decimal (n div 10) @ [digitChar (n mod 10)])"

declare decimal.simps [simp del]

text \<open>
  \<open>String(x)\<close> and \<open>x.toString()\<close> on a number. Up to \<open>2 ^ 53\<close> in magnitude the text
  is the decimal digits of the integer. Above, the text is the shortest digits that read
  back as the same double, in exponent form from \<open>10 ^ 21\<close> on, and the last digit is
  the implementation's choice: that text is taken from the browser.
\<close>

definition numberToString :: "(int \<Rightarrow> string) \<Rightarrow> number \<Rightarrow> string" where
  "numberToString largeText x =
     (case x of
        NaN \<Rightarrow> ''NaN''
      | PosInfinity \<Rightarrow> ''Infinity''
      | NegInfinity \<Rightarrow> ''-Infinity''
      | Num i \<Rightarrow>
          (if \<bar>i\<bar> \<le> 2 ^ 53
           then (if i < 0 then ''-'' @ decimal (nat (- i)) else decimal (nat i))
           else largeText i))"

text \<open>
  \<open>x + y\<close>: the double nearest to the sum; \<open>NaN\<close> is absorbing, and so is an infinity
  but for the sum of the two infinities, which is \<open>NaN\<close>.
\<close>

fun plus_number :: "number \<Rightarrow> number \<Rightarrow> number" where
  "plus_number (Num a) (Num b) = toNumber (a + b)"
| "plus_number NaN y = NaN"
| "plus_number x NaN = NaN"
| "plus_number PosInfinity NegInfinity = NaN"
| "plus_number NegInfinity PosInfinity = NaN"
| "plus_number PosInfinity y = PosInfinity"
| "plus_number x PosInfinity = PosInfinity"
| "plus_number NegInfinity y = NegInfinity"
| "plus_number x NegInfinity = NegInfinity"

text \<open>
  \<open>s.padStart(n, pad)\<close>: the string is returned as it is when it already has \<open>n\<close>
  characters or the filler is empty; otherwise the filler is repeated and cut to the
  missing length, and put in front.
\<close>

definition padStart :: "nat \<Rightarrow> string \<Rightarrow> string \<Rightarrow> string" where
  "padStart n pad s =
     (if n \<le> length s \<or> pad = [] then s
      else take (n - length s) (concat (replicate (n - length s) pad)) @ s)"

text \<open>\<open>x || d\<close> on a string that may be \<open>null\<close>: the empty string is falsy too.\<close>

definition or_string :: "string option \<Rightarrow> string \<Rightarrow> string" where
  "or_string x d = (case x of None \<Rightarrow> d | Some s \<Rightarrow> if s = [] then d else s)"

section \<open>The record store\<close>

text \<open>
  What \<open>new Date()\<close> gives: the components read by \<open>getFullYear\<close>, \<open>getMonth\<close>
  (0 to 11) and \<open>getDate\<close>, and the text of \<open>toISOString\<close>.
\<close>

record js_date =
  getFullYear :: int
  getMonth :: int
  getDate :: int
  toISOString :: string

text \<open>
  The object passed to \<open>saveCertificate\<close>. Its property \<open>id\<close> is missing, or it is an
  own property whose value is \<open>undefined\<close>, \<open>null\<close> or a text.
\<close>

datatype id_property = IdMissing | IdUndefined | IdNull | IdText string

record certificate_data =
  data_id :: id_property
  data_eventName :: string
  data_eventDate :: string
  data_eventLocation :: string
  data_participantName :: string
  data_participantRole :: string
  data_eventDuration :: string

text \<open>
  The object stored under the key path \<open>id\<close> (the field \<open>cert_id\<close>). It has no
  property \<open>date\<close>.
\<close>

record certificate =
  cert_id :: string
  eventName :: string
  eventDate :: string
  eventLocation :: string
  participantName :: string
  participantRole :: string
  eventDuration :: string
  pdfDataUrl :: string
  createdAt :: string

text \<open>
  The persistent state: the \<open>localStorage\<close> item \<open>certificateCounter\<close>, the cached
  database handle \<open>db\<close> (open or not), and the object store \<open>certificates\<close>, which
  IndexedDB keeps in ascending order of the key.
\<close>

record storage =
  certificateCounter :: "string option"
  db :: bool
  certificates :: "certificate list"

text \<open>
  What the browser brings to one call: whether opening the database fails, whether the
  request on the object store fails, \<open>String.prototype.toLowerCase\<close>, whose table of
  letters is the browser's, and the text it prints for a number above \<open>2 ^ 53\<close>.
\<close>

record browser =
  open_error :: "js_error option"
  request_error :: "js_error option"
  toLowerCase :: "string \<Rightarrow> string"
  largeNumberText :: "int \<Rightarrow> string"

subsection \<open>Identifiers\<close>

definition generateCertificateId :: "browser \<Rightarrow> js_date \<Rightarrow> storage \<Rightarrow> string \<times> storage" where
  "generateCertificateId env today st =
     (let String = numberToString (largeNumberText env);
          datePart =
            String (Num (getFullYear today))
            @ padStart 2 ''0'' (String (plus_number (Num (getMonth today)) (Num 1)))
            @ padStart 2 ''0'' (String (Num (getDate today)));
          counter = plus_number (parseInt (or_string (certificateCounter st) ''0'')) (Num 1);
          st' = st\<lparr>certificateCounter := Some (String counter)\<rparr>
      in (''CERT-'' @ datePart @ ''-'' @ padStart 5 ''0'' (String counter), st'))"

subsection \<open>The object store\<close>

text \<open>
  \<open>put\<close> replaces the object with the same key or adds the object at the place of its
  key; \<open>get\<close> finds the object of a key; \<open>delete\<close> removes it and succeeds whether
  or not there was one.
\<close>

definition store_put :: "certificate \<Rightarrow> certificate list \<Rightarrow> certificate list" where
  "store_put c cs = insort_key cert_id c (filter (\<lambda>r. cert_id r \<noteq> cert_id c) cs)"

definition store_get :: "string \<Rightarrow> certificate list \<Rightarrow> certificate option" where
  "store_get k cs = find (\<lambda>r. cert_id r = k) cs"

definition store_delete :: "string \<Rightarrow> certificate list \<Rightarrow> certificate list" where
  "store_delete k cs = filter (\<lambda>r. cert_id r \<noteq> k) cs"

definition initDB :: "browser \<Rightarrow> storage \<Rightarrow> js_error + storage" where
  "initDB env st =
     (if db st then Inr st
      else case open_error env of
             Some e \<Rightarrow> Inl e
           | None \<Rightarrow> Inr (st\<lparr>db := True\<rparr>))"

subsection \<open>Saving\<close>

text \<open>
  \<open>today\<close> is the clock as \<open>generateCertificateId\<close> reads it, \<open>now\<close> the clock as read
  for \<open>createdAt\<close>. An identifier is generated when \<open>certificateData.id\<close> is falsy: a
  missing property, \<open>undefined\<close>, \<open>null\<close> or the empty text. In the object literal the
  spread of \<open>certificateData\<close> comes after \<open>id\<close>, so an own property \<open>id\<close> of the
  data replaces the identifier, whatever its value is. With the key path \<open>id\<close>,
  \<open>put\<close> throws a \<open>DataError\<close> on an object whose \<open>id\<close> is \<open>undefined\<close> or
  \<open>null\<close>, before any request is made.
\<close>

definition dataError :: js_error where
  "dataError = JsError ''DataError''"

definition saveCertificate ::
  "browser \<Rightarrow> js_date \<Rightarrow> js_date \<Rightarrow> certificate_data \<Rightarrow> string \<Rightarrow> storage
     \<Rightarrow> (js_error + certificate) \<times> storage" where
  "saveCertificate env today now certificateData pdf st =
     (case initDB env st of
        Inl e \<Rightarrow> (Inl e, st)
      | Inr st0 \<Rightarrow>
          (let (ident, st1) =
                 (case data_id certificateData of
                    IdText s \<Rightarrow> if s \<noteq> [] then (s, st0) else generateCertificateId env today st0
                  | _ \<Rightarrow> generateCertificateId env today st0);
               key =
                 (case data_id certificateData of
                    IdMissing \<Rightarrow> Some ident
                  | IdUndefined \<Rightarrow> None
                  | IdNull \<Rightarrow> None
                  | IdText s \<Rightarrow> Some s)
           in case key of
                None \<Rightarrow> (Inl dataError, st1)
              | Some k \<Rightarrow>
                  (let certificate =
                         \<lparr>cert_id = k,
                          eventName = data_eventName certificateData,
                          eventDate = data_eventDate certificateData,
                          eventLocation = data_eventLocation certificateData,
                          participantName = data_participantName certificateData,
                          participantRole = data_participantRole certificateData,
                          eventDuration = data_eventDuration certificateData,
                          pdfDataUrl = pdf,
                          createdAt = toISOString now\<rparr>
                   in case request_error env of
                        Some e \<Rightarrow> (Inl e, st1)
                      | None \<Rightarrow>
                          (Inr certificate,
                           st1\<lparr>certificates := store_put certificate (certificates st1)\<rparr>))))"

subsection \<open>Reading, searching, deleting\<close>

definition getAllCertificates ::
  "browser \<Rightarrow> storage \<Rightarrow> (js_error + certificate list) \<times> storage" where
  "getAllCertificates env st =
     (case initDB env st of
        Inl e \<Rightarrow> (Inl e, st)
      | Inr st0 \<Rightarrow>
          (case request_error env of
             Some e \<Rightarrow> (Inl e, st0)
           | None \<Rightarrow> (Inr (certificates st0), st0)))"

text \<open>\<open>s.includes(t)\<close>: \<open>t\<close> occurs in \<open>s\<close> as a run of consecutive characters.\<close>

fun str_includes :: "string \<Rightarrow> string \<Rightarrow> bool" where
  "str_includes [] t = (t = [])"
| "str_includes (c # s) t = (prefix t (c # s) \<or> str_includes s t)"

text \<open>
  \<open>new Date(cert.date).toLocaleDateString()\<close>: a stored certificate has no property
  \<open>date\<close>, so the date is built from \<open>undefined\<close>, it is not a valid date, and its
  text is the same in every locale.
\<close>

definition invalidDateText :: string where
  "invalidDateText = ''Invalid Date''"

definition searchFilter :: "browser \<Rightarrow> string \<Rightarrow> certificate \<Rightarrow> bool" where
  "searchFilter env lterm cert =
     (str_includes (toLowerCase env (cert_id cert)) lterm
      \<or> str_includes (toLowerCase env (participantName cert)) lterm
      \<or> str_includes (toLowerCase env (eventName cert)) lterm
      \<or> str_includes invalidDateText lterm)"

definition searchCertificates ::
  "browser \<Rightarrow> string option \<Rightarrow> storage \<Rightarrow> (js_error + certificate list) \<times> storage" where
  "searchCertificates env searchTerm st =
     (case getAllCertificates env st of
        (Inl e, st') \<Rightarrow> (Inl e, st')
      | (Inr certs, st') \<Rightarrow>
          (case searchTerm of
             None \<Rightarrow> (Inr certs, st')
           | Some s \<Rightarrow>
               if s = [] \<or> trim s = [] then (Inr certs, st')
               else (Inr (filter (searchFilter env (trim (toLowerCase env s))) certs), st')))"

definition getCertificateById ::
  "browser \<Rightarrow> string \<Rightarrow> storage \<Rightarrow> (js_error + certificate option) \<times> storage" where
  "getCertificateById env k st =
     (case initDB env st of
        Inl e \<Rightarrow> (Inl e, st)
      | Inr st0 \<Rightarrow>
          (case request_error env of
             Some e \<Rightarrow> (Inl e, st0)
           | None \<Rightarrow> (Inr (store_get k (certificates st0)), st0)))"

definition deleteCertificate ::
  "browser \<Rightarrow> string \<Rightarrow> storage \<Rightarrow> (js_error + bool) \<times> storage" where
  "deleteCertificate env k st =
     (case initDB env st of
        Inl e \<Rightarrow> (Inl e, st)
      | Inr st0 \<Rightarrow>
          (case request_error env of
             Some e \<Rightarrow> (Inl e, st0)
           | None \<Rightarrow> (Inr True, st0\<lparr>certificates := store_delete k (certificates st0)\<rparr>)))"

text \<open>What the search is specified to select: a match on one of the three text fields.\<close>

definition fieldMatch :: "browser \<Rightarrow> string \<Rightarrow> certificate \<Rightarrow> bool" where
  "fieldMatch env lterm cert =
     (str_includes (toLowerCase env (cert_id cert)) lterm
      \<or> str_includes (toLowerCase env (participantName cert)) lterm
      \<or> str_includes (toLowerCase env (eventName cert)) lterm)"


text \<open>
  A browser whose requests all succeed. Its \<open>toLowerCase\<close> is given on the letters
  \<open>A\<close> to \<open>Z\<close>, which is all that the texts of the examples have in upper case, and
  its text of a large number by the decimal digits; the examples print no such number.
\<close>

definition asciiLowerChar :: "char \<Rightarrow> char" where
  "asciiLowerChar c =
     (case map_of (zip ''ABCDEFGHIJKLMNOPQRSTUVWXYZ'' ''abcdefghijklmnopqrstuvwxyz'') c of
        None \<Rightarrow> c
      | Some l \<Rightarrow> l)"

definition working :: browser where
  "working =
     \<lparr>open_error = None, request_error = None, toLowerCase = map asciiLowerChar,
      largeNumberText = (\<lambda>i. (if i < 0 then ''-'' else []) @ decimal (nat \<bar>i\<bar>))\<rparr>"

subsection \<open>Sequences of identifiers\<close>

text \<open>\<open>n\<close> calls in sequence, the \<open>k\<close>-th one on the date \<open>ds ! k\<close>.\<close>

fun generateMany :: "browser \<Rightarrow> js_date list \<Rightarrow> storage \<Rightarrow> string list \<times> storage" where
  "generateMany env [] st = ([], st)"
| "generateMany env (d # ds) st =
     (let (i, st1) = generateCertificateId env d st;
          (is, st2) = generateMany env ds st1
      in (i # is, st2))"

text \<open>
  Reading an identifier back: a decimal digit, the value of a run of decimal digits, and
  the text after the last hyphen.
\<close>

definition isDigit :: "char \<Rightarrow> bool" where
  "isDigit c = (c \<in> set ''0123456789'')"

definition decimalValue :: "string \<Rightarrow> nat" where
  "decimalValue s = digitsValue 10 s"

definition afterLastHyphen :: "string \<Rightarrow> string" where
  "afterLastHyphen s = rev (takeWhile (\<lambda>c. c \<noteq> CHR ''-'') (rev s))"

definition numericSuffix :: "string \<Rightarrow> nat" where
  "numericSuffix ident = decimalValue (afterLastHyphen ident)"

section \<open>The document composer\<close>

subsection \<open>Arithmetic on doubles\<close>

text \<open>
  The coordinates and sizes of the document are doubles, and every operation on them
  gives the double nearest to the exact result: the exact result is scaled by a power of
  two to lie from \<open>2 ^ 52\<close> to \<open>2 ^ 53\<close>, rounded to an integer, to the even one when
  two are as near, and scaled back. \<open>expo x\<close> is the power of two at or below \<open>x\<close>.
  The exponent is not bounded here: a double has exponents from \<open>-1022\<close> to \<open>1023\<close>,
  and the sizes of an image (32-bit integers) and of a page keep every result of the
  composer far inside that range.
\<close>

definition expo :: "real \<Rightarrow> int" where
  "expo x =
     (if 1 \<le> \<bar>x\<bar> then int (bitLength (nat \<lfloor>\<bar>x\<bar>\<rfloor>)) - 1
      else - int (bitLength (nat (\<lceil>1 / \<bar>x\<bar>\<rceil> - 1))))"

definition roundHalfEven :: "real \<Rightarrow> int" where
  "roundHalfEven y =
     (let f = \<lfloor>y\<rfloor>;
          d = y - of_int f
      in if d < 1 / 2 then f
         else if 1 / 2 < d then f + 1
         else if even f then f else f + 1)"

definition nearestDouble :: "real \<Rightarrow> real" where
  "nearestDouble x =
     (if x = 0 then 0
      else of_int (roundHalfEven (x * 2 powi (52 - expo x))) * 2 powi (expo x - 52))"

definition dadd :: "real \<Rightarrow> real \<Rightarrow> real" where
  "dadd a b = nearestDouble (a + b)"

definition dsub :: "real \<Rightarrow> real \<Rightarrow> real" where
  "dsub a b = nearestDouble (a - b)"

definition dmul :: "real \<Rightarrow> real \<Rightarrow> real" where
  "dmul a b = nearestDouble (a * b)"

text \<open>The composer divides by 2 and by sizes above 50 only, never by zero.\<close>

definition ddiv :: "real \<Rightarrow> real \<Rightarrow> real" where
  "ddiv a b = nearestDouble (a / b)"

subsection \<open>The calls on the document\<close>

text \<open>
  The calls made on the jsPDF document, in the units of the document (millimetres). Text
  is always centred on its \<open>x\<close>.
\<close>

datatype pdf_op =
    NewDocument string string string
  | SetDrawColor nat nat nat
  | SetLineWidth real
  | Rect real real real real
  | SetFont string string
  | SetFontSize nat
  | SetTextColor nat nat nat
  | DrawText "string list" real real
  | AddImage string string real real real real
  | Line real real real real
  | Output string

text \<open>
  What the composer takes from its surroundings: the page size jsPDF reports (two
  doubles), the outcome of loading an image from a data URL (its pixel width and height,
  or an error), jsPDF's line breaking, the two date texts of the locale \<open>es-ES\<close>,
  and which call on the document throws. A call that throws leaves the document as it
  was.
\<close>

record pdf_env =
  pageWidth :: real
  pageHeight :: real
  loadImage :: "string \<Rightarrow> js_error + nat \<times> nat"
  splitTextToSize :: "string \<Rightarrow> real \<Rightarrow> string list"
  toLocaleDateString :: "string \<Rightarrow> string"
  todayText :: string
  throws :: "pdf_op \<Rightarrow> js_error option"

definition formatDate :: "pdf_env \<Rightarrow> string \<Rightarrow> string" where
  "formatDate env dateString = toLocaleDateString env dateString"

definition quote :: string where
  "quote = [CHR 0x22]"

text \<open>The \<open>switch\<close> has the label \<open>Asistente\<close> and \<open>default\<close> on one body.\<close>

definition getRoleSpecificText :: "certificate_data \<Rightarrow> string" where
  "getRoleSpecificText data =
     (if data_participantRole data = ''Ponente'' then
        ''ha participado como PONENTE en el evento '' @ quote @ data_eventName data @ quote
        @ '', presentando su conocimiento y experiencia durante ''
        @ data_eventDuration data @ '' horas.''
      else if data_participantRole data = ''Organizador'' then
        ''ha participado como ORGANIZADOR en el evento '' @ quote @ data_eventName data @ quote
        @ '', gestionando y coordinando actividades durante ''
        @ data_eventDuration data @ '' horas.''
      else
        ''ha participado como ASISTENTE en el evento '' @ quote @ data_eventName data @ quote
        @ '', completando satisfactoriamente ''
        @ data_eventDuration data @ '' horas de formaci'' @ [CHR 0xC3, CHR 0xB3] @ ''n.'')"

text \<open>The calls run in order; the first one that throws ends the run with its error.\<close>

fun exec :: "(pdf_op \<Rightarrow> js_error option) \<Rightarrow> pdf_op list \<Rightarrow> pdf_op list \<Rightarrow> js_error + pdf_op list" where
  "exec thr [] pdf = Inr pdf"
| "exec thr (c # cs) pdf =
     (case thr c of
        Some e \<Rightarrow> Inl e
      | None \<Rightarrow> exec thr cs (pdf @ [c]))"

definition scaleLogo :: "real \<Rightarrow> real \<Rightarrow> real \<times> real" where
  "scaleLogo imgWidth imgHeight =
     (let maxLogoWidth = 50;
          maxLogoHeight = 50;
          (logoWidth, logoHeight) =
            (if imgWidth > maxLogoWidth
             then (let ratio = ddiv maxLogoWidth imgWidth
                   in (maxLogoWidth, dmul imgHeight ratio))
             else (imgWidth, imgHeight))
      in if logoHeight > maxLogoHeight
         then (let ratio = ddiv maxLogoHeight logoHeight
               in (dmul logoWidth ratio, maxLogoHeight))
         else (logoWidth, logoHeight))"

text \<open>
  The block guarded by \<open>if (logoDataUrl)\<close>, with its own \<open>try\<close>: it gives the height
  the logo takes in the flow, and the document.
\<close>

definition placeLogo :: "pdf_env \<Rightarrow> string option \<Rightarrow> pdf_op list \<Rightarrow> real \<times> pdf_op list" where
  "placeLogo env logoDataUrl pdf =
     (case logoDataUrl of
        None \<Rightarrow> (0, pdf)
      | Some url \<Rightarrow>
          if url = [] then (0, pdf)
          else
            (case loadImage env url of
               Inl logoError \<Rightarrow> (0, pdf)
             | Inr (w, h) \<Rightarrow>
                 (let (logoWidth, logoHeight) = scaleLogo (real w) (real h)
                  in case exec (throws env)
                            [AddImage url ''PNG''
                               (dsub (ddiv (pageWidth env) 2) (ddiv logoWidth 2)) 40
                               logoWidth logoHeight] pdf of
                       Inl logoError \<Rightarrow> (0, pdf)
                     | Inr pdf' \<Rightarrow> (dadd logoHeight 10, pdf'))))"

text \<open>The property \<open>id\<close> of the data inside a template literal.\<close>

definition idText :: "id_property \<Rightarrow> string" where
  "idText i =
     (case i of
        IdMissing \<Rightarrow> ''undefined''
      | IdUndefined \<Rightarrow> ''undefined''
      | IdNull \<Rightarrow> ''null''
      | IdText s \<Rightarrow> s)"

definition headerOps :: "pdf_env \<Rightarrow> pdf_op list" where
  "headerOps env =
     [NewDocument ''landscape'' ''mm'' ''a4'',
      SetDrawColor 0 110 253,
      SetLineWidth 1,
      Rect 10 10 (dsub (pageWidth env) 20) (dsub (pageHeight env) 20),
      SetDrawColor 220 220 220,
      SetLineWidth 0.5,
      Rect 15 15 (dsub (pageWidth env) 30) (dsub (pageHeight env) 30),
      SetFont ''helvetica'' ''bold'',
      SetFontSize 24,
      SetTextColor 0 110 253,
      DrawText [''CERTIFICADO DE PARTICIPACI'' @ [CHR 0xC3, CHR 0x93] @ ''N'']
        (ddiv (pageWidth env) 2) 30]"

definition bodyOps :: "pdf_env \<Rightarrow> certificate_data \<Rightarrow> real \<Rightarrow> pdf_op list" where
  "bodyOps env data logoHeight =
     (let centre = ddiv (pageWidth env) 2;
          roleText = getRoleSpecificText data;
          textWidth = dsub (pageWidth env) 80;
          splitText = splitTextToSize env roleText textWidth;
          textHeight = dmul (real (length splitText)) 5;
          yPos = dadd (dadd 75 logoHeight) textHeight;
          yPos1 = dadd yPos 30;
          yPos2 = dadd yPos1 5;
          yPos3 = dadd yPos2 20;
          yPos4 = dadd yPos3 5
      in [SetFont ''helvetica'' ''normal'',
          SetFontSize 12,
          SetTextColor 0 0 0,
          DrawText [''Se certifica que:''] centre (dadd 50 logoHeight),
          SetFont ''helvetica'' ''bold'',
          SetFontSize 18,
          DrawText [data_participantName data] centre (dadd 60 logoHeight),
          SetFont ''helvetica'' ''normal'',
          SetFontSize 12,
          DrawText splitText centre (dadd 70 logoHeight),
          DrawText [''Realizado el '' @ formatDate env (data_eventDate data) @ '' en ''
                    @ data_eventLocation data @ ''.''] centre yPos,
          Line (dsub centre 30) yPos1 (dadd centre 30) yPos1,
          DrawText [''Firma del Organizador''] centre yPos2,
          SetFontSize 8,
          SetTextColor 100 100 100,
          DrawText [''ID: '' @ idText (data_id data)
                    @ '' | Fecha de emisi'' @ [CHR 0xC3, CHR 0xB3] @ ''n: '' @ todayText env]
            centre yPos3,
          DrawText [''Este certificado puede ser validado en www.nuestroevento.com/validar'']
            centre yPos4,
          Output ''dataurlstring''])"

text \<open>
  The result is the document as the calls that made it (what \<open>output\<close> serialises), or
  the error thrown again by the outer \<open>catch\<close>.
\<close>

definition generateCertificatePDF ::
  "pdf_env \<Rightarrow> certificate_data \<Rightarrow> string option \<Rightarrow> js_error + pdf_op list" where
  "generateCertificatePDF env data logoDataUrl =
     (case exec (throws env) (headerOps env) [] of
        Inl error \<Rightarrow> Inl error
      | Inr pdf \<Rightarrow>
          (let (logoHeight, pdf') = placeLogo env logoDataUrl pdf
           in exec (throws env) (bodyOps env data logoHeight) pdf'))"

text \<open>
  The emblem fails: the image does not load, or it loads and \<open>addImage\<close> throws on it.
\<close>

definition logoFails :: "pdf_env \<Rightarrow> string \<Rightarrow> bool" where
  "logoFails env url =
     (case loadImage env url of
        Inl logoError \<Rightarrow> True
      | Inr (w, h) \<Rightarrow>
          (let (logoWidth, logoHeight) = scaleLogo (real w) (real h)
           in throws env (AddImage url ''PNG''
                (dsub (ddiv (pageWidth env) 2) (ddiv logoWidth 2)) 40
                logoWidth logoHeight) \<noteq> None))"

text \<open>The error of the first call of a list that throws, if any does.\<close>

fun firstError :: "(pdf_op \<Rightarrow> js_error option) \<Rightarrow> pdf_op list \<Rightarrow> js_error option" where
  "firstError thr [] = None"
| "firstError thr (c # cs) =
     (case thr c of
        Some e \<Rightarrow> Some e
      | None \<Rightarrow> firstError thr cs)"

text \<open>
  The two steps of the scaling as the specification words them: fit the width, then fit
  the height of the result.
\<close>

definition fitWidth :: "real \<times> real \<Rightarrow> real \<times> real" where
  "fitWidth p = (if fst p > 50 then (50, dmul (snd p) (ddiv 50 (fst p))) else p)"

definition fitHeight :: "real \<times> real \<Rightarrow> real \<times> real" where
  "fitHeight p = (if snd p > 50 then (dmul (fst p) (ddiv 50 (snd p)), 50) else p)"

section \<open>Example values\<close>

text \<open>
  Two days, an empty state, the data of the scenario of the specification, the record
  that saving them on the first day stores, and the state after that save.
\<close>

definition may10 :: js_date where
  "may10 = \<lparr>getFullYear = 2024, getMonth = 4, getDate = 10,
             toISOString = ''2024-05-10T09:00:00.000Z''\<rparr>"

definition may11 :: js_date where
  "may11 = \<lparr>getFullYear = 2024, getMonth = 4, getDate = 11,
             toISOString = ''2024-05-11T09:00:00.000Z''\<rparr>"

definition emptyStorage :: storage where
  "emptyStorage = \<lparr>certificateCounter = None, db = False, certificates = []\<rparr>"

definition carlos :: certificate_data where
  "carlos = \<lparr>data_id = IdMissing, data_eventName = ''Taller de Rust'',
              data_eventDate = ''2024-05-10'', data_eventLocation = ''Lima'',
              data_participantName = ''Carlos Ruiz'', data_participantRole = ''Ponente'',
              data_eventDuration = ''8''\<rparr>"

definition carlosStored :: certificate where
  "carlosStored = \<lparr>cert_id = ''CERT-20240510-00001'', eventName = ''Taller de Rust'',
                    eventDate = ''2024-05-10'', eventLocation = ''Lima'',
                    participantName = ''Carlos Ruiz'', participantRole = ''Ponente'',
                    eventDuration = ''8'', pdfDataUrl = ''data:application/pdf;base64,JVBERi0='',
                    createdAt = ''2024-05-10T09:00:00.000Z''\<rparr>"

definition oneStored :: storage where
  "oneStored = \<lparr>certificateCounter = Some ''1'', db = True, certificates = [carlosStored]\<rparr>"



text \<open>
  A page of 297 by 210, an image loader that fails on every URL, one line per paragraph,
  and a document on which the call of \<open>failing\<close>, if any, throws.
\<close>

definition brokenImageEnv :: "pdf_op option \<Rightarrow> pdf_env" where
  "brokenImageEnv failing =
     \<lparr>pageWidth = 297, pageHeight = 210,
      loadImage = (\<lambda>url. Inl (JsError ''image'')),
      splitTextToSize = (\<lambda>s w. [s]),
      toLocaleDateString = (\<lambda>s. ''10/05/2024''),
      todayText = ''11/5/2024'',
      throws = (\<lambda>c. if Some c = failing then Some (JsError ''jsPDF'') else None)\<rparr>"

text \<open>The same surroundings with an image of 40 by 30 pixels that loads.\<close>

definition smallImageEnv :: "pdf_op option \<Rightarrow> pdf_env" where
  "smallImageEnv failing = (brokenImageEnv failing)\<lparr>loadImage := (\<lambda>url. Inr (40, 30))\<rparr>"

section \<open>Texts of numbers, characters and integer doubles\<close>

subsection \<open>Decimal digits\<close>

lemma isDigit_digitChar: "d < 10 \<Longrightarrow> isDigit (digitChar d)"
  by (simp add: isDigit_def digitChar_def nth_Cons' )

lemma digit_cases: "d < 10 \<Longrightarrow> d \<in> {0, 1, 2, 3, 4, 5, 6, 7, 8, 9::nat}"
  by auto

lemma digitValue_digitChar: "d < 10 \<Longrightarrow> digitValue (digitChar d) = d"
  using digit_cases [of d] by (auto simp add: digitChar_def digitValue_def)

lemma isDigit_digitValue: "isDigit c \<Longrightarrow> digitValue c < 10"
  by (auto simp add: isDigit_def digitValue_def)

lemma decimal_not_Nil: "decimal n \<noteq> []"
  by (subst decimal.simps) simp

lemma decimal_digits: "list_all isDigit (decimal n)"
proof (induction n rule: decimal.induct)
  case (1 n)
  show ?case
  proof (cases "n < 10")
    case True
    then show ?thesis by (subst decimal.simps) (simp add: isDigit_digitChar)
  next
    case False
    with 1 show ?thesis by (subst decimal.simps) (simp add: isDigit_digitChar)
  qed
qed

lemma digitsValue_snoc: "digitsValue r (s @ [c]) = digitsValue r s * r + digitValue c"
  by (simp add: digitsValue_def)

lemma digitsValue_decimal: "digitsValue 10 (decimal n) = n"
proof (induction n rule: decimal.induct)
  case (1 n)
  show ?case
  proof (cases "n < 10")
    case True
    then show ?thesis
      by (subst decimal.simps) (simp add: digitsValue_def digitValue_digitChar)
  next
    case False
    with 1 have "digitsValue 10 (decimal (n div 10)) = n div 10" by simp
    with False show ?thesis
      by (subst decimal.simps) (simp add: digitsValue_snoc digitValue_digitChar)
  qed
qed

lemma length_decimal_le: "n < 10 ^ k \<Longrightarrow> 0 < k \<Longrightarrow> length (decimal n) \<le> k"
proof (induction n arbitrary: k rule: decimal.induct)
  case (1 n)
  show ?case
  proof (cases "n < 10")
    case True
    with 1(3) show ?thesis by (subst decimal.simps) simp
  next
    case False
    obtain j where j: "k = Suc j" using 1(3) by (cases k) auto
    have "0 < j" using False 1(2) j by (cases j) auto
    from 1(2) j have "n div 10 < 10 ^ j" by (simp add: less_mult_imp_div_less mult.commute)
    with 1(1) False \<open>0 < j\<close> have "length (decimal (n div 10)) \<le> j" by simp
    with False j show ?thesis by (subst decimal.simps) simp
  qed
qed

lemma length_decimal_ge: "10 ^ k \<le> n \<Longrightarrow> k < length (decimal n)"
proof (induction n arbitrary: k rule: decimal.induct)
  case (1 n)
  show ?case
  proof (cases k)
    case 0
    then show ?thesis using decimal_not_Nil [of n] by (cases "decimal n") auto
  next
    case (Suc j)
    have "(1::nat) \<le> 10 ^ j" by simp
    then have "(10::nat) \<le> 10 ^ Suc j" by simp
    moreover from Suc 1(2) have "10 ^ Suc j \<le> n" by simp
    ultimately have "10 \<le> n" by (rule order_trans)
    then have False: "\<not> n < 10" by simp
    from Suc 1(2) have "10 ^ j \<le> n div 10" by (simp add: less_eq_div_iff_mult_less_eq mult.commute)
    with 1(1) False have "j < length (decimal (n div 10))" by simp
    with False Suc show ?thesis by (subst decimal.simps) simp
  qed
qed

lemma padStart_zero: "padStart n ''0'' s = replicate (n - length s) CHR ''0'' @ s"
proof -
  have "concat (replicate k ''0'') = replicate k CHR ''0''" for k
    by (induction k) simp_all
  then show ?thesis by (simp add: padStart_def)
qed

lemma digitsValue_zeros: "digitsValue 10 (replicate k CHR ''0'' @ s) = digitsValue 10 s"
proof -
  have "foldl (\<lambda>a c. a * 10 + digitValue c) 0 (replicate k CHR ''0'') = 0"
    by (induction k) (simp_all add: digitValue_def)
  then show ?thesis by (simp add: digitsValue_def)
qed

lemma isDigit_not_x: "isDigit c \<Longrightarrow> c \<noteq> CHR ''x'' \<and> c \<noteq> CHR ''X'' \<and> c \<noteq> CHR ''-'' \<and> c \<noteq> CHR ''+''"
  by (auto simp add: isDigit_def)

lemma take2_not_hex:
  assumes "list_all isDigit s"
  shows "take 2 s \<noteq> ''0x'' \<and> take 2 s \<noteq> ''0X''"
proof -
  have sub: "set (take 2 s) \<subseteq> set s" by (rule set_take_subset)
  have a: "\<forall>c \<in> set (take 2 s). isDigit c"
    using assms sub by (auto simp add: list_all_iff)
  have "take 2 s \<noteq> ''0x''"
  proof
    assume "take 2 s = ''0x''"
    with a have "isDigit (CHR ''x'')" by simp
    then show False using isDigit_not_x by blast
  qed
  moreover have "take 2 s \<noteq> ''0X''"
  proof
    assume "take 2 s = ''0X''"
    with a have "isDigit (CHR ''X'')" by simp
    then show False using isDigit_not_x by blast
  qed
  ultimately show ?thesis by simp
qed

subsection \<open>Characters and white space\<close>

lemma concat_characters: "concat (characters s) = s"
  by (induction s rule: characters.induct) simp_all


lemma characters_Nil_iff: "characters s = [] \<longleftrightarrow> s = []"
  by (cases s) simp_all

lemma whiteSpace_first:
  "isWhiteSpace (c # r) \<Longrightarrow>
     c \<in> set [CHR 0x09, CHR 0x0A, CHR 0x0B, CHR 0x0C, CHR 0x0D, CHR 0x20,
              CHR 0xC2, CHR 0xE1, CHR 0xE2, CHR 0xE3, CHR 0xEF]"
  by (auto simp add: isWhiteSpace_def whiteSpaces_def)

lemma isDigit_not_space: "isDigit c \<Longrightarrow> \<not> isWhiteSpace (c # r)"
proof
  assume d: "isDigit c" and "isWhiteSpace (c # r)"
  then have "c \<in> set [CHR 0x09, CHR 0x0A, CHR 0x0B, CHR 0x0C, CHR 0x0D, CHR 0x20,
              CHR 0xC2, CHR 0xE1, CHR 0xE2, CHR 0xE3, CHR 0xEF]"
    by (simp only: whiteSpace_first)
  with d show False by (auto simp add: isDigit_def)
qed

lemma trimStart_digit: "isDigit c \<Longrightarrow> trimStart (c # r) = c # r"
proof -
  assume "isDigit c"
  then have "\<not> isWhiteSpace (c # takeWhile isContinuation r)" by (rule isDigit_not_space)
  then have "trimStart (c # r) = concat (characters (c # r))"
    by (simp add: trimStart_def)
  then show ?thesis by (simp only: concat_characters)
qed

subsection \<open>Doubles\<close>

lemma bitLength_le: "n < 2 ^ k \<Longrightarrow> bitLength n \<le> k"
proof (induction k arbitrary: n)
  case 0
  then show ?case by (subst bitLength.simps) simp
next
  case (Suc k)
  show ?case
  proof (cases "n = 0")
    case True
    then show ?thesis by (subst bitLength.simps) simp
  next
    case False
    from Suc.prems have "n div 2 < 2 ^ k" by auto
    then have "bitLength (n div 2) \<le> k" by (rule Suc.IH)
    with False show ?thesis by (subst bitLength.simps) simp
  qed
qed

lemma bitLength_ge: "2 ^ k \<le> n \<Longrightarrow> k < bitLength n"
proof (induction k arbitrary: n)
  case 0
  then show ?case by (subst bitLength.simps) auto
next
  case (Suc k)
  have "(0::nat) < 2 ^ Suc k" by simp
  then have "0 < n" using Suc.prems by (rule less_le_trans)
  then have "n \<noteq> 0" by simp
  from Suc.prems have "2 ^ k \<le> n div 2" by auto
  then have "k < bitLength (n div 2)" by (rule Suc.IH)
  with \<open>n \<noteq> 0\<close> show ?case by (subst bitLength.simps) simp
qed

lemma bitLength_eq: "2 ^ k \<le> n \<Longrightarrow> n < 2 ^ Suc k \<Longrightarrow> bitLength n = Suc k"
  using bitLength_le [of n "Suc k"] bitLength_ge [of k n] by simp

lemma roundToDouble_small: "\<bar>k\<bar> < 2 ^ 53 \<Longrightarrow> roundToDouble k = k"
proof -
  assume "\<bar>k\<bar> < 2 ^ 53"
  then have "nat \<bar>k\<bar> < 2 ^ 53" by (simp add: nat_less_iff)
  then have "bitLength (nat \<bar>k\<bar>) \<le> 53" by (rule bitLength_le)
  then have "bitLength (nat \<bar>k\<bar>) - 53 = 0" by simp
  then have "roundToDouble k = sgn k * int (nat \<bar>k\<bar>)"
    by (simp add: roundToDouble_def Let_def)
  then show ?thesis by (simp add: mult_sgn_abs)
qed

lemma roundToDouble_pow53: "roundToDouble (2 ^ 53) = 2 ^ 53"
proof -
  have "bitLength (nat \<bar>2 ^ 53\<bar>) = Suc 53"
    by (rule bitLength_eq) simp_all
  then show ?thesis
    by (simp add: roundToDouble_def Let_def)
qed

lemma roundToDouble_pow53_1: "roundToDouble (2 ^ 53 + 1) = 2 ^ 53"
proof -
  have "bitLength (nat \<bar>2 ^ 53 + 1\<bar>) = Suc 53"
    by (rule bitLength_eq) simp_all
  then show ?thesis
    by (simp add: roundToDouble_def Let_def)
qed

lemma toNumber_small: "0 \<le> k \<Longrightarrow> k \<le> 2 ^ 53 \<Longrightarrow> toNumber k = Num k"
proof -
  assume a: "0 \<le> k" "k \<le> 2 ^ 53"
  then have "roundToDouble k = k"
    using roundToDouble_small [of k] roundToDouble_pow53 by (cases "k = 2 ^ 53") auto
  moreover have "(2::int) ^ 53 < 2 ^ 1024" by simp
  ultimately show ?thesis using a by (simp add: toNumber_def Let_def)
qed

lemma toNumber_pow53_1: "toNumber (2 ^ 53 + 1) = Num (2 ^ 53)"
  unfolding toNumber_def Let_def roundToDouble_pow53_1 by simp

lemma parseInt_digits:
  assumes "s \<noteq> []" and "list_all isDigit s"
  shows "parseInt s = toNumber (int (decimalValue s))"
proof -
  from assms obtain c r where s: "s = c # r" and c: "isDigit c" by (cases s) simp_all
  have ws: "trimStart s = s"
    using s c by (simp only: trimStart_digit)
  have sign: "take 1 s \<noteq> ''-''" "take 1 s \<noteq> ''+''"
    using s isDigit_not_x [OF c] by simp_all
  have hex: "take 2 s \<noteq> ''0x''" "take 2 s \<noteq> ''0X''"
    using take2_not_hex [OF assms(2)] by simp_all
  have tw: "takeWhile (\<lambda>c. digitValue c < 10) s = s"
    using assms(2) by (simp add: takeWhile_eq_all_conv list_all_iff isDigit_digitValue)
  have "parseInt s = (if s = [] then NaN else toNumber (1 * int (digitsValue 10 s)))"
    unfolding parseInt_def Let_def ws
    by (simp only: sign hex tw if_False simp_thms)
  then show ?thesis
    using assms(1) by (simp add: decimalValue_def)
qed

lemma parseInt_decimal: "n \<le> 2 ^ 53 \<Longrightarrow> parseInt (decimal n) = Num (int n)"
proof -
  assume "n \<le> 2 ^ 53"
  then have "int n \<le> 2 ^ 53" by (metis of_nat_le_iff of_nat_numeral of_nat_power)
  then have "toNumber (int n) = Num (int n)" by (simp add: toNumber_small)
  then show ?thesis
    by (simp add: parseInt_digits decimal_not_Nil decimal_digits decimalValue_def
          digitsValue_decimal)
qed

section \<open>The identifiers\<close>

lemma isDigit_zero: "isDigit (CHR ''0'')"
  by (simp add: isDigit_def)

lemma padded_digits: "list_all isDigit (padStart n ''0'' (decimal k))"
  using decimal_digits [of k] by (auto simp add: padStart_zero list_all_iff isDigit_zero)

lemma padded_value: "decimalValue (padStart n ''0'' (decimal k)) = k"
  by (simp add: padStart_zero decimalValue_def digitsValue_zeros digitsValue_decimal)

lemma length_padded: "length (padStart n ''0'' s) = max n (length s)"
  by (simp add: padStart_zero)

lemma padStart_long: "n \<le> length s \<Longrightarrow> padStart n pad s = s"
  by (simp add: padStart_def)

lemma afterLastHyphen_append:
  assumes "CHR ''-'' \<notin> set sfx"
  shows "afterLastHyphen (pre @ ''-'' @ sfx) = sfx"
proof -
  have "takeWhile (\<lambda>c. c \<noteq> CHR ''-'') (rev sfx @ CHR ''-'' # rev pre)
          = rev sfx @ takeWhile (\<lambda>c. c \<noteq> CHR ''-'') (CHR ''-'' # rev pre)"
    by (rule takeWhile_append2) (use assms in auto)
  then show ?thesis by (simp add: afterLastHyphen_def)
qed

lemma digits_no_hyphen: "list_all isDigit s \<Longrightarrow> CHR ''-'' \<notin> set s"
  using isDigit_not_x by (auto simp add: list_all_iff)

lemma int_pow53: "int (2 ^ 53) = 2 ^ 53"
  by simp

lemma counter_step:
  assumes "c \<le> 2 ^ 53"
  shows "plus_number (Num (int c)) (Num 1) = Num (int (min (Suc c) (2 ^ 53)))"
proof (cases "c < 2 ^ 53")
  case True
  then have "Suc c \<le> 2 ^ 53" by simp
  then have "int (Suc c) \<le> 2 ^ 53" by (metis int_pow53 of_nat_le_iff)
  then have "toNumber (int (Suc c)) = Num (int (Suc c))" by (simp add: toNumber_small)
  moreover have "int c + 1 = int (Suc c)" by simp
  moreover from True have "min (Suc c) (2 ^ 53) = Suc c" by simp
  ultimately show ?thesis by (simp only: plus_number.simps)
next
  case False
  with assms have c: "c = 2 ^ 53" by simp
  then have "int c + 1 = 2 ^ 53 + 1" by simp
  moreover from c have "int (min (Suc c) (2 ^ 53)) = 2 ^ 53" by simp
  ultimately show ?thesis by (simp only: plus_number.simps toNumber_pow53_1)
qed

lemma numberToString_nat: "n \<le> 2 ^ 53 \<Longrightarrow> numberToString lt (Num (int n)) = decimal n"
proof -
  assume "n \<le> 2 ^ 53"
  then have "int n \<le> 2 ^ 53" by (metis int_pow53 of_nat_le_iff)
  then show ?thesis by (simp add: numberToString_def)
qed

lemma generateCertificateId_eq:
  assumes "parseInt (or_string (certificateCounter st) ''0'') = Num (int c)"
      and "c \<le> 2 ^ 53"
  shows "generateCertificateId env today st =
           (''CERT-''
            @ (numberToString (largeNumberText env) (Num (getFullYear today))
               @ padStart 2 ''0''
                   (numberToString (largeNumberText env) (toNumber (getMonth today + 1)))
               @ padStart 2 ''0'' (numberToString (largeNumberText env) (Num (getDate today))))
            @ ''-'' @ padStart 5 ''0'' (decimal (min (Suc c) (2 ^ 53))),
            st\<lparr>certificateCounter := Some (decimal (min (Suc c) (2 ^ 53)))\<rparr>)"
proof -
  define n where "n = min (Suc c) (2 ^ 53)"
  have "n \<le> 2 ^ 53" by (simp add: n_def)
  then have t: "numberToString (largeNumberText env) (Num (int n)) = decimal n"
    by (rule numberToString_nat)
  have p: "plus_number (parseInt (or_string (certificateCounter st) ''0'')) (Num 1) = Num (int n)"
    by (simp only: assms(1) counter_step [OF assms(2)] n_def)
  have m: "plus_number (Num (getMonth today)) (Num 1) = toNumber (getMonth today + 1)"
    by simp
  show ?thesis
    unfolding generateCertificateId_def Let_def p t m n_def [symmetric] by simp
qed

lemma counter_after:
  "n \<le> 2 ^ 53 \<Longrightarrow> parseInt (or_string (Some (decimal n)) ''0'') = Num (int n)"
  by (simp add: or_string_def decimal_not_Nil parseInt_decimal)

lemma numericSuffix_generated:
  assumes "parseInt (or_string (certificateCounter st) ''0'') = Num (int c)"
      and "c \<le> 2 ^ 53"
  shows "numericSuffix (fst (generateCertificateId env today st)) = min (Suc c) (2 ^ 53)"
proof -
  have "CHR ''-'' \<notin> set (padStart 5 ''0'' (decimal (min (Suc c) (2 ^ 53))))"
    by (rule digits_no_hyphen) (rule padded_digits)
  then have "afterLastHyphen
      ((''CERT-''
        @ (numberToString (largeNumberText env) (Num (getFullYear today))
           @ padStart 2 ''0''
               (numberToString (largeNumberText env) (toNumber (getMonth today + 1)))
           @ padStart 2 ''0'' (numberToString (largeNumberText env) (Num (getDate today)))))
       @ ''-'' @ padStart 5 ''0'' (decimal (min (Suc c) (2 ^ 53))))
      = padStart 5 ''0'' (decimal (min (Suc c) (2 ^ 53)))"
    by (rule afterLastHyphen_append)
  then have "afterLastHyphen (fst (generateCertificateId env today st))
               = padStart 5 ''0'' (decimal (min (Suc c) (2 ^ 53)))"
    by (simp add: generateCertificateId_eq [OF assms])
  then show ?thesis by (simp only: numericSuffix_def padded_value)
qed

lemma generateMany_suffixes:
  assumes "parseInt (or_string (certificateCounter st) ''0'') = Num (int c)"
      and "c + length ds \<le> 2 ^ 53"
  shows "map numericSuffix (fst (generateMany env ds st)) = [Suc c ..< Suc c + length ds]
         \<and> parseInt (or_string (certificateCounter (snd (generateMany env ds st))) ''0'')
             = Num (int (c + length ds))"
  using assms
proof (induction ds arbitrary: st c)
  case Nil
  then show ?case by simp
next
  case (Cons d ds)
  from Cons.prems(2) have c: "c < 2 ^ 53" "Suc c \<le> 2 ^ 53" "c \<le> 2 ^ 53"
    and rest: "Suc c + length ds \<le> 2 ^ 53"
    by simp_all
  from c have m: "min (Suc c) (2 ^ 53) = Suc c" by simp
  obtain i st1 where g: "generateCertificateId env d st = (i, st1)"
    by (cases "generateCertificateId env d st")
  have i: "numericSuffix i = Suc c"
    using numericSuffix_generated [OF Cons.prems(1) c(3), of env d] g m by simp
  have "st1 = st\<lparr>certificateCounter := Some (decimal (Suc c))\<rparr>"
    using generateCertificateId_eq [OF Cons.prems(1) c(3), of env d] g m by simp
  then have "parseInt (or_string (certificateCounter st1) ''0'') = Num (int (Suc c))"
    using counter_after [OF c(2)] by simp
  from Cons.IH [OF this rest]
  have ih: "map numericSuffix (fst (generateMany env ds st1))
              = [Suc (Suc c) ..< Suc (Suc c) + length ds]"
    "parseInt (or_string (certificateCounter (snd (generateMany env ds st1))) ''0'')
             = Num (int (Suc c + length ds))"
    by simp_all
  have "[Suc c ..< Suc (Suc (c + length ds))]
          = Suc c # [Suc (Suc c) ..< Suc (Suc (c + length ds))]"
    by (rule upt_conv_Cons) simp
  with g i ih show ?case
    by (simp add: split_beta del: upt_Suc)
qed

lemma length_decimal_pos: "0 < length (decimal n)"
  using decimal_not_Nil [of n] by simp

lemma two_digits:
  assumes "0 \<le> i" and "i < 100"
  shows "length (padStart 2 ''0'' (numberToString lt (Num i))) = 2"
    and "list_all isDigit (padStart 2 ''0'' (numberToString lt (Num i)))"
    and "int (decimalValue (padStart 2 ''0'' (numberToString lt (Num i)))) = i"
proof -
  have s: "numberToString lt (Num i) = decimal (nat i)"
    using assms by (simp add: numberToString_def)
  have "nat i < 10 ^ 2" using assms by simp
  then have "length (decimal (nat i)) \<le> 2" by (rule length_decimal_le) simp
  then show "length (padStart 2 ''0'' (numberToString lt (Num i))) = 2"
    by (simp add: s length_padded)
  show "list_all isDigit (padStart 2 ''0'' (numberToString lt (Num i)))"
    by (simp add: s padded_digits)
  show "int (decimalValue (padStart 2 ''0'' (numberToString lt (Num i)))) = i"
    using assms(1) by (simp add: s padded_value)
qed

lemma four_digits:
  assumes "1000 \<le> i" and "i \<le> 9999"
  shows "length (numberToString lt (Num i)) = 4"
    and "list_all isDigit (numberToString lt (Num i))"
    and "int (decimalValue (numberToString lt (Num i))) = i"
proof -
  have s: "numberToString lt (Num i) = decimal (nat i)"
    using assms by (simp add: numberToString_def)
  have "nat i < 10 ^ 4" using assms by simp
  then have "length (decimal (nat i)) \<le> 4" by (rule length_decimal_le) simp
  moreover have "10 ^ 3 \<le> nat i" using assms by simp
  then have "3 < length (decimal (nat i))" by (rule length_decimal_ge)
  ultimately show "length (numberToString lt (Num i)) = 4" by (simp add: s)
  show "list_all isDigit (numberToString lt (Num i))"
    by (simp add: s decimal_digits)
  show "int (decimalValue (numberToString lt (Num i))) = i"
    using assms(1) by (simp add: s decimalValue_def digitsValue_decimal)
qed

text \<open>
  Claim C4. Every identifier that \<open>generateCertificateId\<close> returns is \<open>CERT-\<close>, the
  eight digits of the current date (four of the year, two of the month, two of the day), a
  hyphen, and the new value of the counter in decimal, filled with zeros on the left up
  to five digits; from 100000 on the field is the whole decimal text of the counter, so
  it gets wider and nothing is cut. The date is a calendar date with a four-digit year,
  and the stored counter reads as a natural number \<open>c\<close> of at most \<open>2 ^ 53\<close>, as it
  does when the item is missing or was written by this function: the new value of the
  counter is \<open>c + 1\<close>, and \<open>2 ^ 53\<close> when \<open>c\<close> is \<open>2 ^ 53\<close>, and the counter stored
  by the call reads as that value, again at most \<open>2 ^ 53\<close>.
\<close>

theorem generateCertificateId_format:
  assumes "1000 \<le> getFullYear today" and "getFullYear today \<le> 9999"
      and "0 \<le> getMonth today" and "getMonth today \<le> 11"
      and "1 \<le> getDate today" and "getDate today \<le> 31"
      and "parseInt (or_string (certificateCounter st) ''0'') = Num (int c)"
      and "c \<le> 2 ^ 53"
  shows "\<exists>dp sfx. fst (generateCertificateId env today st) = ''CERT-'' @ dp @ ''-'' @ sfx
           \<and> length dp = 8 \<and> list_all isDigit dp
           \<and> int (decimalValue (take 4 dp)) = getFullYear today
           \<and> int (decimalValue (take 2 (drop 4 dp))) = getMonth today + 1
           \<and> int (decimalValue (drop 6 dp)) = getDate today
           \<and> list_all isDigit sfx
           \<and> length sfx = max 5 (length (decimal (min (Suc c) (2 ^ 53))))
           \<and> decimalValue sfx = min (Suc c) (2 ^ 53)
           \<and> (100000 \<le> min (Suc c) (2 ^ 53) \<longrightarrow> sfx = decimal (min (Suc c) (2 ^ 53)))
           \<and> (min (Suc c) (2 ^ 53) < 100000 \<longrightarrow> length sfx = 5)
           \<and> parseInt (or_string
                 (certificateCounter (snd (generateCertificateId env today st))) ''0'')
               = Num (int (min (Suc c) (2 ^ 53)))"
proof -
  define n where "n = min (Suc c) (2 ^ 53)"
  have n: "n \<le> 2 ^ 53" by (simp add: n_def)
  define lt where "lt = largeNumberText env"
  define yy where "yy = numberToString lt (Num (getFullYear today))"
  define mm where "mm = padStart 2 ''0'' (numberToString lt (toNumber (getMonth today + 1)))"
  define dd where "dd = padStart 2 ''0'' (numberToString lt (Num (getDate today)))"
  define sfx where "sfx = padStart 5 ''0'' (decimal n)"
  have yy: "length yy = 4" "list_all isDigit yy" "int (decimalValue yy) = getFullYear today"
    unfolding yy_def using assms(1,2) by (rule four_digits)+
  have "toNumber (getMonth today + 1) = Num (getMonth today + 1)"
    using assms(3,4) by (simp add: toNumber_small)
  then have mm: "length mm = 2" "list_all isDigit mm"
    "int (decimalValue mm) = getMonth today + 1"
    unfolding mm_def using assms(3,4) by (simp_all add: two_digits)
  have dd: "length dd = 2" "list_all isDigit dd" "int (decimalValue dd) = getDate today"
    unfolding dd_def using assms(5,6) by (simp_all add: two_digits)
  note eq = generateCertificateId_eq [OF assms(7,8), of env today, folded n_def lt_def]
  have ident: "fst (generateCertificateId env today st) = ''CERT-'' @ (yy @ mm @ dd) @ ''-'' @ sfx"
    by (simp add: eq yy_def mm_def dd_def sfx_def)
  have after: "parseInt (or_string
                 (certificateCounter (snd (generateCertificateId env today st))) ''0'')
               = Num (int n)"
    using counter_after [OF n] by (simp add: eq)
  have wide: "sfx = decimal n" if "100000 \<le> n"
  proof -
    from that have "10 ^ 5 \<le> n" by simp
    then have "5 < length (decimal n)" by (rule length_decimal_ge)
    then show ?thesis by (simp add: sfx_def padStart_long)
  qed
  have narrow: "length sfx = 5" if "n < 100000"
  proof -
    from that have "n < 10 ^ 5" by simp
    then have "length (decimal n) \<le> 5" by (rule length_decimal_le) simp
    then show ?thesis by (simp add: sfx_def length_padded)
  qed
  have "length (yy @ mm @ dd) = 8" "list_all isDigit (yy @ mm @ dd)"
    "take 4 (yy @ mm @ dd) = yy" "take 2 (drop 4 (yy @ mm @ dd)) = mm" "drop 6 (yy @ mm @ dd) = dd"
    using yy mm dd by simp_all
  moreover have "list_all isDigit sfx" "length sfx = max 5 (length (decimal n))"
    "decimalValue sfx = n"
    by (simp_all add: sfx_def padded_digits length_padded padded_value)
  ultimately show ?thesis
    unfolding n_def [symmetric]
    using ident yy mm dd wide narrow after
    by (intro exI [of _ "yy @ mm @ dd"] exI [of _ sfx]) simp
qed

text \<open>
  Claim C3, as amended. \<open>n\<close> calls in sequence, on any dates, that start on a stored
  counter reading \<open>c\<close> with \<open>c + n\<close> at most \<open>2 ^ 53\<close>, give \<open>n\<close> identifiers that
  are pairwise distinct and whose numeric suffixes are \<open>c + 1\<close>, \<open>c + 2\<close>, ... up to
  \<open>c + n\<close>: strictly increasing, one more at each call, whatever the dates are. The
  counter is the one item of the persistent state, and after the calls it reads
  \<open>c + n\<close>.
\<close>

theorem generateCertificateId_sequence:
  assumes "parseInt (or_string (certificateCounter st) ''0'') = Num (int c)"
      and "c + length ds \<le> 2 ^ 53"
  shows "length (fst (generateMany env ds st)) = length ds
         \<and> map numericSuffix (fst (generateMany env ds st)) = [Suc c ..< Suc c + length ds]
         \<and> sorted_wrt (<) (map numericSuffix (fst (generateMany env ds st)))
         \<and> distinct (fst (generateMany env ds st))
         \<and> parseInt (or_string (certificateCounter (snd (generateMany env ds st))) ''0'')
             = Num (int (c + length ds))"
proof -
  note m = generateMany_suffixes [OF assms, of env]
  from m have suffixes:
    "map numericSuffix (fst (generateMany env ds st)) = [Suc c ..< Suc c + length ds]" ..
  from m have counter:
    "parseInt (or_string (certificateCounter (snd (generateMany env ds st))) ''0'')
       = Num (int (c + length ds))" ..
  have "length (fst (generateMany env ds st))
          = length (map numericSuffix (fst (generateMany env ds st)))"
    by simp
  also have "\<dots> = length [Suc c ..< Suc c + length ds]"
    by (simp only: suffixes)
  also have "\<dots> = length ds"
    by (simp only: length_upt diff_add_inverse)
  finally have len: "length (fst (generateMany env ds st)) = length ds" .
  have "distinct (map numericSuffix (fst (generateMany env ds st)))"
    by (simp only: suffixes distinct_upt)
  then have dist: "distinct (fst (generateMany env ds st))" by (simp add: distinct_map)
  have incr: "sorted_wrt (<) (map numericSuffix (fst (generateMany env ds st)))"
    by (simp only: suffixes sorted_wrt_upt)
  from len suffixes incr dist counter show ?thesis by blast
qed

theorem generateCertificateId_format_witness:
  "1000 \<le> getFullYear may10 \<and> getFullYear may10 \<le> 9999
   \<and> 0 \<le> getMonth may10 \<and> getMonth may10 \<le> 11
   \<and> 1 \<le> getDate may10 \<and> getDate may10 \<le> 31
   \<and> parseInt (or_string (certificateCounter (emptyStorage\<lparr>certificateCounter := Some ''99999''\<rparr>)) ''0'')
       = Num (int 99999)
   \<and> (99999::nat) \<le> 2 ^ 53
   \<and> fst (generateCertificateId working may10 (emptyStorage\<lparr>certificateCounter := Some ''99999''\<rparr>))
       = ''CERT-20240510-100000''
   \<and> (\<exists>dp sfx. fst (generateCertificateId working may10
                        (emptyStorage\<lparr>certificateCounter := Some ''99999''\<rparr>))
                   = ''CERT-'' @ dp @ ''-'' @ sfx
           \<and> length dp = 8 \<and> list_all isDigit dp
           \<and> int (decimalValue (take 4 dp)) = getFullYear may10
           \<and> int (decimalValue (take 2 (drop 4 dp))) = getMonth may10 + 1
           \<and> int (decimalValue (drop 6 dp)) = getDate may10
           \<and> list_all isDigit sfx
           \<and> decimalValue sfx = 100000
           \<and> sfx = decimal 100000)"
proof -
  have d: "1000 \<le> getFullYear may10" "getFullYear may10 \<le> 9999"
    "0 \<le> getMonth may10" "getMonth may10 \<le> 11"
    "1 \<le> getDate may10" "getDate may10 \<le> 31"
    by (simp_all add: may10_def)
  have b: "(99999::nat) \<le> 2 ^ 53" by simp
  have "decimal 99999 = ''99999''"
    by (simp add: decimal.simps digitChar_def)
  then have c: "parseInt (or_string (certificateCounter (emptyStorage\<lparr>certificateCounter := Some ''99999''\<rparr>)) ''0'')
                  = Num (int 99999)"
    using counter_after [OF b] by simp
  have n: "min (Suc 99999) (2 ^ 53) = (100000::nat)" by simp
  have e: "fst (generateCertificateId working may10 (emptyStorage\<lparr>certificateCounter := Some ''99999''\<rparr>))
             = ''CERT-20240510-100000''"
    unfolding generateCertificateId_eq [OF c b] n
    by (simp add: may10_def numberToString_def toNumber_small decimal.simps
          digitChar_def padStart_def)
  have w: "(100000::nat) \<le> 100000" by simp
  from generateCertificateId_format [OF d c b, of working, unfolded n] w
  have x: "\<exists>dp sfx. fst (generateCertificateId working may10
                        (emptyStorage\<lparr>certificateCounter := Some ''99999''\<rparr>))
                   = ''CERT-'' @ dp @ ''-'' @ sfx
           \<and> length dp = 8 \<and> list_all isDigit dp
           \<and> int (decimalValue (take 4 dp)) = getFullYear may10
           \<and> int (decimalValue (take 2 (drop 4 dp))) = getMonth may10 + 1
           \<and> int (decimalValue (drop 6 dp)) = getDate may10
           \<and> list_all isDigit sfx
           \<and> decimalValue sfx = 100000
           \<and> sfx = decimal 100000"
    by blast
  from d c b e x show ?thesis by (intro conjI) assumption+
qed

theorem generateCertificateId_sequence_witness:
  "parseInt (or_string (certificateCounter emptyStorage) ''0'') = Num (int 0)
   \<and> 0 + length [may10, may11] \<le> (2 ^ 53 :: nat)
   \<and> fst (generateMany working [may10, may11] emptyStorage)
       = [''CERT-20240510-00001'', ''CERT-20240511-00002'']
   \<and> length (fst (generateMany working [may10, may11] emptyStorage)) = length [may10, may11]
   \<and> map numericSuffix (fst (generateMany working [may10, may11] emptyStorage))
       = [Suc 0 ..< Suc 0 + length [may10, may11]]
   \<and> sorted_wrt (<) (map numericSuffix (fst (generateMany working [may10, may11] emptyStorage)))
   \<and> distinct (fst (generateMany working [may10, may11] emptyStorage))
   \<and> parseInt (or_string
         (certificateCounter (snd (generateMany working [may10, may11] emptyStorage))) ''0'')
       = Num (int (0 + length [may10, may11]))"
proof -
  have c: "parseInt (or_string (certificateCounter emptyStorage) ''0'') = Num (int 0)"
    by code_simp
  have b: "0 + length [may10, may11] \<le> (2 ^ 53 :: nat)" by simp
  have e: "fst (generateMany working [may10, may11] emptyStorage)
             = [''CERT-20240510-00001'', ''CERT-20240511-00002'']"
    by code_simp
  note generateCertificateId_sequence [OF c b, of working]
  with c b e show ?thesis by blast
qed

text \<open>
  Claim C3 as written fails: on a counter that reads \<open>2 ^ 53\<close> the sum with 1 is rounded
  back to \<open>2 ^ 53\<close>, the counter stays where it is, and two calls return the same
  identifier.
\<close>

theorem generateCertificateId_sequence_counterexample:
  "fst (generateMany working [may10, may10]
          (emptyStorage\<lparr>certificateCounter := Some ''9007199254740992''\<rparr>))
     = [''CERT-20240510-9007199254740992'', ''CERT-20240510-9007199254740992'']
   \<and> \<not> distinct (fst (generateMany working [may10, may10]
          (emptyStorage\<lparr>certificateCounter := Some ''9007199254740992''\<rparr>)))
   \<and> \<not> sorted_wrt (<) (map numericSuffix (fst (generateMany working [may10, may10]
          (emptyStorage\<lparr>certificateCounter := Some ''9007199254740992''\<rparr>))))"
proof -
  have b: "(2 ^ 53 :: nat) \<le> 2 ^ 53" by simp
  have t: "decimal (2 ^ 53) = ''9007199254740992''"
    by (simp add: decimal.simps digitChar_def)
  have c: "parseInt (or_string (certificateCounter
              (emptyStorage\<lparr>certificateCounter := Some ''9007199254740992''\<rparr>)) ''0'')
             = Num (int (2 ^ 53))"
    using counter_after [OF b] by (simp only: t) simp
  have n: "min (Suc (2 ^ 53)) (2 ^ 53) = (2 ^ 53 :: nat)" by simp
  have g: "generateCertificateId working may10
             (emptyStorage\<lparr>certificateCounter := Some ''9007199254740992''\<rparr>)
           = (''CERT-20240510-9007199254740992'',
              emptyStorage\<lparr>certificateCounter := Some ''9007199254740992''\<rparr>)"
    unfolding generateCertificateId_eq [OF c b] n t
    by (simp add: may10_def numberToString_def toNumber_small decimal.simps
          digitChar_def padStart_def)
  have e: "fst (generateMany working [may10, may10]
          (emptyStorage\<lparr>certificateCounter := Some ''9007199254740992''\<rparr>))
     = [''CERT-20240510-9007199254740992'', ''CERT-20240510-9007199254740992'']"
    by (simp add: g)
  have s: "numericSuffix ''CERT-20240510-9007199254740992'' = 9007199254740992"
    by (simp add: numericSuffix_def afterLastHyphen_def decimalValue_def digitsValue_def
          digitValue_def)
  show ?thesis
    unfolding e by (simp add: s)
qed

section \<open>Saving, searching and deleting\<close>

lemma initDB_ok:
  assumes "db st \<or> open_error env = None"
  shows "initDB env st = Inr (st\<lparr>db := True\<rparr>)"
  using assms by (cases "db st") (simp_all add: initDB_def)

lemma store_delete_absent: "k \<notin> cert_id ` set cs \<Longrightarrow> store_delete k cs = cs"
  by (induction cs) (auto simp add: store_delete_def)

lemma store_delete_removes: "k \<notin> cert_id ` set (store_delete k cs)"
  by (auto simp add: store_delete_def)

lemma find_insort_key:
  assumes "\<forall>x \<in> set xs. f x \<noteq> f c"
  shows "find (\<lambda>r. f r = f c) (insort_key f c xs) = Some c"
  using assms by (induction xs) simp_all

lemma filter_insort_key:
  assumes "\<forall>x \<in> set xs. f x \<noteq> f c"
  shows "filter (\<lambda>r. f r = f c) (insort_key f c xs) = [c]"
  using assms by (induction xs) simp_all

lemma store_get_put: "cert_id c = k \<Longrightarrow> store_get k (store_put c cs) = Some c"
  using find_insort_key [of "filter (\<lambda>r. cert_id r \<noteq> cert_id c) cs" cert_id c]
  by (simp add: store_get_def store_put_def)

lemma store_put_only: "cert_id c = k \<Longrightarrow> filter (\<lambda>r. cert_id r = k) (store_put c cs) = [c]"
  using filter_insort_key [of "filter (\<lambda>r. cert_id r \<noteq> cert_id c) cs" cert_id c]
  by (simp add: store_put_def)




text \<open>
  Claim C1, as amended. Whether or not a record exists under the id \<open>k\<close>, a save of data
  with the id \<open>k\<close> that the browser carries out returns a record that has the id \<open>k\<close>,
  the fields of the data passed to it and \<open>createdAt\<close> equal to the current timestamp;
  afterwards this record is the one stored under \<open>k\<close>, and the only one: a second
  save under the same id replaces the whole record, \<open>createdAt\<close> included.
\<close>

theorem saveCertificate_createdAt:
  assumes "db st \<or> open_error env = None" and "request_error env = None"
      and "data_id certificateData = IdText k"
  shows "\<exists>c st'. saveCertificate env today now certificateData pdf st = (Inr c, st')
           \<and> cert_id c = k
           \<and> createdAt c = toISOString now
           \<and> eventName c = data_eventName certificateData
           \<and> eventDate c = data_eventDate certificateData
           \<and> eventLocation c = data_eventLocation certificateData
           \<and> participantName c = data_participantName certificateData
           \<and> participantRole c = data_participantRole certificateData
           \<and> eventDuration c = data_eventDuration certificateData
           \<and> pdfDataUrl c = pdf
           \<and> store_get k (certificates st') = Some c
           \<and> filter (\<lambda>r. cert_id r = k) (certificates st') = [c]"
  using assms
  by (auto simp add: saveCertificate_def initDB_ok Let_def store_get_put store_put_only
        split: prod.splits)

lemma generateCertificateId_certificates:
  "certificates (snd (generateCertificateId env today st)) = certificates st"
  by (simp add: generateCertificateId_def Let_def)

text \<open>
  Claim C5, as the code has it. In a save that the browser carries out: when the data
  have no property \<open>id\<close>, the record returned carries the identifier that
  \<open>generateCertificateId\<close> gives on the current state, it is stored under that key, and
  the counter is the one \<open>generateCertificateId\<close> left; when the \<open>id\<close> of the data is
  a text that is not empty, the record returned carries it and is stored under it, and
  the counter is not touched. When the \<open>id\<close> is an own property of the data whose value
  is \<open>null\<close> or \<open>undefined\<close>, an identifier is generated and the counter advanced as
  well, but the spread of the data puts the \<open>id\<close> of the data back in the record,
  \<open>put\<close> refuses the record with a \<open>DataError\<close>, and nothing is stored: there the
  claim fails.
\<close>

theorem saveCertificate_id:
  assumes "db st \<or> open_error env = None" and "request_error env = None"
  shows "(data_id certificateData = IdNull \<or> data_id certificateData = IdUndefined \<longrightarrow>
            saveCertificate env today now certificateData pdf st
              = (Inl dataError, snd (generateCertificateId env today (st\<lparr>db := True\<rparr>))))
         \<and> (data_id certificateData = IdMissing \<longrightarrow>
              (\<exists>c. saveCertificate env today now certificateData pdf st
                     = (Inr c, (snd (generateCertificateId env today (st\<lparr>db := True\<rparr>)))
                                 \<lparr>certificates := store_put c (certificates st)\<rparr>)
                   \<and> cert_id c = fst (generateCertificateId env today (st\<lparr>db := True\<rparr>))
                   \<and> store_get (cert_id c) (store_put c (certificates st)) = Some c))
         \<and> (\<forall>k. data_id certificateData = IdText k \<and> k \<noteq> [] \<longrightarrow>
              (\<exists>c. saveCertificate env today now certificateData pdf st
                     = (Inr c, st\<lparr>db := True, certificates := store_put c (certificates st)\<rparr>)
                   \<and> cert_id c = k
                   \<and> store_get k (store_put c (certificates st)) = Some c))"
proof -
  obtain i st1 where g: "generateCertificateId env today (st\<lparr>db := True\<rparr>) = (i, st1)"
    by (cases "generateCertificateId env today (st\<lparr>db := True\<rparr>)")
  have c: "certificates st1 = certificates st"
    using generateCertificateId_certificates [of env today "st\<lparr>db := True\<rparr>"]
    by (simp add: g)
  show ?thesis
    using assms
    by (auto simp add: saveCertificate_def initDB_ok Let_def store_get_put g c)
qed


text \<open>
  Claim C10. For a term that is not empty and whose lower-case, trimmed form occurs in
  the text \<open>Invalid Date\<close>, the search returns what \<open>getAllCertificates\<close> returns:
  every stored record, whatever its fields are.
\<close>

theorem searchCertificates_invalid_date:
  assumes "s \<noteq> []" and "str_includes invalidDateText (trim (toLowerCase env s))"
  shows "searchCertificates env (Some s) st = getAllCertificates env st"
proof -
  have "filter (searchFilter env (trim (toLowerCase env s))) certs = certs" for certs
    using assms(2) by (simp add: searchFilter_def)
  then show ?thesis
    by (simp add: searchCertificates_def split: prod.splits sum.splits)
qed

text \<open>
  Claim C9. When the browser carries the requests out, deleting an id that has no record
  resolves to \<open>true\<close> and leaves the records and the counter as they were. Deleting
  any id resolves to \<open>true\<close>, the id has no record afterwards, and deleting it once more
  resolves to \<open>true\<close> and changes nothing.
\<close>

theorem deleteCertificate_absent:
  assumes "db st \<or> open_error env = None" and "request_error env = None"
  shows "(k \<notin> cert_id ` set (certificates st)
            \<longrightarrow> deleteCertificate env k st = (Inr True, st\<lparr>db := True\<rparr>))
         \<and> fst (deleteCertificate env k st) = Inr True
         \<and> k \<notin> cert_id ` set (certificates (snd (deleteCertificate env k st)))
         \<and> deleteCertificate env k (snd (deleteCertificate env k st))
             = (Inr True, snd (deleteCertificate env k st))"
proof -
  have d: "deleteCertificate env k st
             = (Inr True, st\<lparr>db := True, certificates := store_delete k (certificates st)\<rparr>)"
    using assms by (simp add: deleteCertificate_def initDB_ok)
  have "deleteCertificate env k (st\<lparr>db := True, certificates := store_delete k (certificates st)\<rparr>)
          = (Inr True, st\<lparr>db := True, certificates := store_delete k (certificates st)\<rparr>)"
    using assms(2)
    by (simp add: deleteCertificate_def initDB_def store_delete_absent store_delete_removes)
  with d show ?thesis
    by (simp add: store_delete_absent store_delete_removes)
qed

theorem saveCertificate_createdAt_witness:
  "(db oneStored \<or> open_error working = None) \<and> request_error working = None
   \<and> data_id (carlos\<lparr>data_id := IdText ''CERT-20240510-00001'', data_eventDuration := ''9''\<rparr>)
       = IdText ''CERT-20240510-00001''
   \<and> (\<exists>c st'. saveCertificate working may11 may11
         (carlos\<lparr>data_id := IdText ''CERT-20240510-00001'', data_eventDuration := ''9''\<rparr>)
         ''data:application/pdf;base64,JVBERi1='' oneStored = (Inr c, st')
           \<and> cert_id c = ''CERT-20240510-00001''
           \<and> createdAt c = toISOString may11
           \<and> eventDuration c = ''9''
           \<and> pdfDataUrl c = ''data:application/pdf;base64,JVBERi1=''
           \<and> store_get ''CERT-20240510-00001'' (certificates st') = Some c
           \<and> filter (\<lambda>r. cert_id r = ''CERT-20240510-00001'') (certificates st') = [c])"
proof -
  have h: "db oneStored \<or> open_error working = None" "request_error working = None"
    "data_id (carlos\<lparr>data_id := IdText ''CERT-20240510-00001'', data_eventDuration := ''9''\<rparr>)
       = IdText ''CERT-20240510-00001''"
    by (simp_all add: oneStored_def working_def)
  from saveCertificate_createdAt [OF h, of may11 may11 "''data:application/pdf;base64,JVBERi1=''"]
  obtain c st' where "saveCertificate working may11 may11
         (carlos\<lparr>data_id := IdText ''CERT-20240510-00001'', data_eventDuration := ''9''\<rparr>)
         ''data:application/pdf;base64,JVBERi1='' oneStored = (Inr c, st')"
     "cert_id c = ''CERT-20240510-00001''"
     "createdAt c = toISOString may11"
     "eventDuration c = ''9''" "pdfDataUrl c = ''data:application/pdf;base64,JVBERi1=''"
     "store_get ''CERT-20240510-00001'' (certificates st') = Some c"
     "filter (\<lambda>r. cert_id r = ''CERT-20240510-00001'') (certificates st') = [c]"
    by auto
  with h show ?thesis by blast
qed

text \<open>
  Claim C1 as written fails: the scenario data are saved on 10 May, which stores one
  record created that day; saving under the same id on 11 May leaves one record, whose
  \<open>createdAt\<close> is the timestamp of 11 May.
\<close>

theorem saveCertificate_createdAt_counterexample:
  "saveCertificate working may10 may10 carlos ''data:application/pdf;base64,JVBERi0='' emptyStorage
     = (Inr carlosStored, oneStored)
   \<and> store_get ''CERT-20240510-00001'' (certificates oneStored) = Some carlosStored
   \<and> createdAt carlosStored = ''2024-05-10T09:00:00.000Z''
   \<and> map createdAt (certificates (snd (saveCertificate working may11 may11
         (carlos\<lparr>data_id := IdText ''CERT-20240510-00001'', data_eventDuration := ''9''\<rparr>)
         ''data:application/pdf;base64,JVBERi1='' oneStored)))
       = [''2024-05-11T09:00:00.000Z'']"
  by code_simp

text \<open>
  The data of the scenario with an \<open>id\<close> of \<open>null\<close> and of \<open>undefined\<close>, saved on an
  empty store: the save is refused, no record is stored, and the counter has advanced
  to 1. The same data without the property are stored under the first identifier.
\<close>

theorem saveCertificate_id_witness:
  "(db emptyStorage \<or> open_error working = None) \<and> request_error working = None
   \<and> data_id (carlos\<lparr>data_id := IdNull\<rparr>) = IdNull
   \<and> saveCertificate working may10 may10 (carlos\<lparr>data_id := IdNull\<rparr>)
         ''data:application/pdf;base64,JVBERi0='' emptyStorage
       = (Inl dataError, snd (generateCertificateId working may10 (emptyStorage\<lparr>db := True\<rparr>)))
   \<and> saveCertificate working may10 may10 (carlos\<lparr>data_id := IdNull\<rparr>)
         ''data:application/pdf;base64,JVBERi0='' emptyStorage
       = (Inl dataError, \<lparr>certificateCounter = Some ''1'', db = True, certificates = []\<rparr>)
   \<and> saveCertificate working may10 may10 (carlos\<lparr>data_id := IdUndefined\<rparr>)
         ''data:application/pdf;base64,JVBERi0='' emptyStorage
       = (Inl dataError, \<lparr>certificateCounter = Some ''1'', db = True, certificates = []\<rparr>)
   \<and> data_id carlos = IdMissing
   \<and> saveCertificate working may10 may10 carlos
         ''data:application/pdf;base64,JVBERi0='' emptyStorage
       = (Inr carlosStored, oneStored)
   \<and> fst (generateCertificateId working may10 (emptyStorage\<lparr>db := True\<rparr>))
       = ''CERT-20240510-00001''"
proof -
  have h: "db emptyStorage \<or> open_error working = None" "request_error working = None"
    by (simp_all add: working_def)
  have n: "data_id (carlos\<lparr>data_id := IdNull\<rparr>) = IdNull" by simp
  have m: "data_id carlos = IdMissing" by (simp add: carlos_def)
  from saveCertificate_id [OF h, of "carlos\<lparr>data_id := IdNull\<rparr>" may10 may10
      "''data:application/pdf;base64,JVBERi0=''"] n
  have a: "saveCertificate working may10 may10 (carlos\<lparr>data_id := IdNull\<rparr>)
         ''data:application/pdf;base64,JVBERi0='' emptyStorage
       = (Inl dataError, snd (generateCertificateId working may10 (emptyStorage\<lparr>db := True\<rparr>)))"
    by blast
  have b: "saveCertificate working may10 may10 (carlos\<lparr>data_id := IdNull\<rparr>)
         ''data:application/pdf;base64,JVBERi0='' emptyStorage
       = (Inl dataError, \<lparr>certificateCounter = Some ''1'', db = True, certificates = []\<rparr>)"
    by code_simp
  have c: "saveCertificate working may10 may10 (carlos\<lparr>data_id := IdUndefined\<rparr>)
         ''data:application/pdf;base64,JVBERi0='' emptyStorage
       = (Inl dataError, \<lparr>certificateCounter = Some ''1'', db = True, certificates = []\<rparr>)"
    by code_simp
  have d: "saveCertificate working may10 may10 carlos
         ''data:application/pdf;base64,JVBERi0='' emptyStorage
       = (Inr carlosStored, oneStored)"
    by code_simp
  have e: "fst (generateCertificateId working may10 (emptyStorage\<lparr>db := True\<rparr>))
       = ''CERT-20240510-00001''"
    by code_simp
  from h n a b c m d e show ?thesis by (intro conjI) assumption+
qed



theorem searchCertificates_invalid_date_witness:
  "''Ate '' \<noteq> []
   \<and> str_includes invalidDateText (trim (toLowerCase working ''Ate ''))
   \<and> searchCertificates working (Some ''Ate '') oneStored = getAllCertificates working oneStored
   \<and> fst (searchCertificates working (Some ''Ate '') oneStored) = Inr [carlosStored]
   \<and> \<not> fieldMatch working (trim (toLowerCase working ''Ate '')) carlosStored"
proof -
  have h: "''Ate '' \<noteq> []" "str_includes invalidDateText (trim (toLowerCase working ''Ate ''))"
    by code_simp+
  have e: "fst (searchCertificates working (Some ''Ate '') oneStored) = Inr [carlosStored]"
    "\<not> fieldMatch working (trim (toLowerCase working ''Ate '')) carlosStored"
    by code_simp+
  note searchCertificates_invalid_date [OF h, of oneStored]
  with h e show ?thesis by (intro conjI) assumption+
qed

theorem deleteCertificate_absent_witness:
  "(db oneStored \<or> open_error working = None) \<and> request_error working = None
   \<and> ''CERT-20240510-00002'' \<notin> cert_id ` set (certificates oneStored)
   \<and> deleteCertificate working ''CERT-20240510-00002'' oneStored = (Inr True, oneStored)
   \<and> deleteCertificate working ''CERT-20240510-00001'' oneStored
       = (Inr True, oneStored\<lparr>certificates := []\<rparr>)
   \<and> deleteCertificate working ''CERT-20240510-00001''
        (snd (deleteCertificate working ''CERT-20240510-00001'' oneStored))
       = (Inr True, snd (deleteCertificate working ''CERT-20240510-00001'' oneStored))"
proof -
  have h: "db oneStored \<or> open_error working = None" "request_error working = None"
    by (simp_all add: working_def)
  have a: "''CERT-20240510-00002'' \<notin> cert_id ` set (certificates oneStored)"
    by (simp add: oneStored_def carlosStored_def)
  have u: "oneStored\<lparr>db := True\<rparr> = oneStored"
    by (simp add: oneStored_def)
  have e: "deleteCertificate working ''CERT-20240510-00001'' oneStored
       = (Inr True, oneStored\<lparr>certificates := []\<rparr>)"
    by code_simp
  from deleteCertificate_absent [OF h, of "''CERT-20240510-00002''"] a u
  have x: "deleteCertificate working ''CERT-20240510-00002'' oneStored = (Inr True, oneStored)"
    by simp
  from deleteCertificate_absent [OF h, of "''CERT-20240510-00001''"]
  have y: "deleteCertificate working ''CERT-20240510-00001''
        (snd (deleteCertificate working ''CERT-20240510-00001'' oneStored))
       = (Inr True, snd (deleteCertificate working ''CERT-20240510-00001'' oneStored))"
    by blast
  from h a x e y show ?thesis by (intro conjI) assumption+
qed

section \<open>Rounding to the nearest double\<close>

lemma bitLength_pos: "0 < n \<Longrightarrow> 0 < bitLength n"
  using bitLength_ge [of 0 n] by simp

lemma bitLength_upper: "n < 2 ^ bitLength n"
proof (rule ccontr)
  assume "\<not> n < 2 ^ bitLength n"
  then have "2 ^ bitLength n \<le> n" by simp
  then have "bitLength n < bitLength n" by (rule bitLength_ge)
  then show False by simp
qed

lemma bitLength_lower: "0 < n \<Longrightarrow> 2 ^ (bitLength n - 1) \<le> n"
proof (rule ccontr)
  assume n: "0 < n" and "\<not> 2 ^ (bitLength n - 1) \<le> n"
  then have "n < 2 ^ (bitLength n - 1)" by simp
  then have "bitLength n \<le> bitLength n - 1" by (rule bitLength_le)
  with bitLength_pos [OF n] show False by simp
qed

lemma expo_bounds:
  assumes "0 < x"
  shows "2 powi expo x \<le> x" and "x < 2 powi (expo x + 1)"
proof -
  have "2 powi expo x \<le> x \<and> x < 2 powi (expo x + 1)"
  proof (cases "1 \<le> x")
    case True
    define n where "n = nat \<lfloor>x\<rfloor>"
    define b where "b = bitLength n"
    from True have fl: "1 \<le> \<lfloor>x\<rfloor>" by simp
    then have n: "0 < n" by (simp add: n_def)
    have rn: "real n = of_int \<lfloor>x\<rfloor>" using fl by (simp add: n_def)
    from n have b: "0 < b" unfolding b_def by (rule bitLength_pos)
    have e: "expo x = int (b - 1)"
      using True assms b by (simp add: expo_def n_def b_def)
    have "2 ^ (b - 1) \<le> n" unfolding b_def using n by (rule bitLength_lower)
    then have "(2::real) ^ (b - 1) \<le> real n"
      by (metis of_nat_le_iff of_nat_numeral of_nat_power)
    also have "\<dots> \<le> x" by (simp add: rn)
    finally have lo: "(2::real) ^ (b - 1) \<le> x" .
    have "n < 2 ^ b" unfolding b_def by (rule bitLength_upper)
    then have "Suc n \<le> 2 ^ b" by simp
    then have "real (Suc n) \<le> 2 ^ b"
      by (metis of_nat_le_iff of_nat_numeral of_nat_power)
    moreover have "x < real (Suc n)" using rn by simp linarith
    ultimately have hi: "x < 2 ^ b" by simp
    have "expo x + 1 = int b" using e b by simp
    then have p2: "(2::real) powi (expo x + 1) = 2 ^ b" by (simp only: power_int_of_nat)
    have p1: "(2::real) powi expo x = 2 ^ (b - 1)" by (simp only: e power_int_of_nat)
    from lo hi show ?thesis by (simp only: p1 p2 simp_thms)
  next
    case False
    with assms have x: "0 < x" "x < 1" by simp_all
    define y where "y = 1 / x"
    from x have y: "1 < y" by (simp add: y_def)
    define n where "n = nat (\<lceil>y\<rceil> - 1)"
    define b where "b = bitLength n"
    from y have c: "2 \<le> \<lceil>y\<rceil>" by (simp add: le_ceiling_iff)
    then have n: "0 < n" by (simp add: n_def)
    have rn: "real n = of_int \<lceil>y\<rceil> - 1" using c by (simp add: n_def)
    from n have b: "0 < b" unfolding b_def by (rule bitLength_pos)
    have e: "expo x = - int b"
      using x by (simp add: expo_def n_def b_def y_def)
    have "2 ^ (b - 1) \<le> n" unfolding b_def using n by (rule bitLength_lower)
    then have "(2::real) ^ (b - 1) \<le> real n"
      by (metis of_nat_le_iff of_nat_numeral of_nat_power)
    also have "\<dots> < y" using rn by simp linarith
    finally have lo: "(2::real) ^ (b - 1) < y" .
    have "n < 2 ^ b" unfolding b_def by (rule bitLength_upper)
    then have "Suc n \<le> 2 ^ b" by simp
    then have "real (Suc n) \<le> 2 ^ b"
      by (metis of_nat_le_iff of_nat_numeral of_nat_power)
    moreover have "y \<le> real (Suc n)" using rn by simp
    ultimately have hi: "y \<le> 2 ^ b" by simp
    from hi x have h1: "1 / 2 ^ b \<le> x"
      by (simp add: y_def field_simps)
    from lo x have h2: "x < 1 / 2 ^ (b - 1)"
      by (simp add: y_def field_simps)
    have p1: "(2::real) powi (- int b) = 1 / 2 ^ b"
      by (simp add: power_int_minus field_simps)
    have "- int b + 1 = - int (b - 1)" using b by simp
    then have "(2::real) powi (- int b + 1) = 2 powi (- int (b - 1))" by (simp only:)
    also have "\<dots> = inverse (2 ^ (b - 1))" by (simp only: power_int_minus power_int_of_nat)
    finally have p2: "(2::real) powi (- int b + 1) = 1 / 2 ^ (b - 1)"
      by (simp only: inverse_eq_divide)
    from h1 h2 show ?thesis by (simp only: e p1 p2) 
  qed
  then show "2 powi expo x \<le> x" and "x < 2 powi (expo x + 1)" by simp_all
qed

lemma powi_less_imp_less: "(2::real) powi a < 2 powi b \<Longrightarrow> a < b"
proof (rule ccontr)
  assume l: "(2::real) powi a < 2 powi b" and "\<not> a < b"
  then have "b \<le> a" by simp
  then have "(2::real) powi b \<le> 2 powi a" by (rule power_int_increasing) simp
  with l show False by simp
qed

lemma expo_unique:
  assumes "0 < x" and "2 powi e \<le> x" and "x < 2 powi (e + 1)"
  shows "expo x = e"
proof -
  note b = expo_bounds [OF assms(1)]
  from assms(2) b(2) have "(2::real) powi e < 2 powi (expo x + 1)" by simp
  then have "e < expo x + 1" by (rule powi_less_imp_less)
  moreover from b(1) assms(3) have "(2::real) powi expo x < 2 powi (e + 1)" by simp
  then have "expo x < e + 1" by (rule powi_less_imp_less)
  ultimately show ?thesis by simp
qed

lemma roundHalfEven_lower: "y - 1 / 2 \<le> of_int (roundHalfEven y)"
  by (simp add: roundHalfEven_def Let_def) linarith

lemma roundHalfEven_upper: "of_int (roundHalfEven y) \<le> y + 1 / 2"
  by (simp add: roundHalfEven_def Let_def) linarith

lemma roundHalfEven_int: "roundHalfEven (of_int k) = k"
  by (simp add: roundHalfEven_def)

lemma roundHalfEven_mono:
  assumes "y \<le> z"
  shows "roundHalfEven y \<le> roundHalfEven z"
proof (cases "\<lfloor>y\<rfloor> = \<lfloor>z\<rfloor>")
  case True
  with assms have "y - of_int \<lfloor>y\<rfloor> \<le> z - of_int \<lfloor>z\<rfloor>" by simp
  with True show ?thesis
    by (auto simp add: roundHalfEven_def Let_def)
next
  case False
  with assms have "\<lfloor>y\<rfloor> < \<lfloor>z\<rfloor>" using floor_mono [of y z] by simp
  then have "\<lfloor>y\<rfloor> + 1 \<le> \<lfloor>z\<rfloor>" by simp
  moreover have "roundHalfEven y \<le> \<lfloor>y\<rfloor> + 1"
    by (simp add: roundHalfEven_def Let_def)
  moreover have "\<lfloor>z\<rfloor> \<le> roundHalfEven z"
    by (simp add: roundHalfEven_def Let_def)
  ultimately show ?thesis by simp
qed

lemma powi_cancel: "(2::real) powi (52 - e) * 2 powi (e - 52) = 1"
proof -
  have "(2::real) powi ((52 - e) + (e - 52)) = 2 powi (52 - e) * 2 powi (e - 52)"
    by (rule power_int_add) simp
  then show ?thesis by simp
qed

lemma powi_scale: "(2::real) powi e * 2 powi (52 - e) = 2 ^ 52"
proof -
  have "(2::real) powi (e + (52 - e)) = 2 powi e * 2 powi (52 - e)"
    by (rule power_int_add) simp
  then show ?thesis by simp
qed

lemma powi_scale1: "(2::real) powi (e + 1) * 2 powi (52 - e) = 2 ^ 53"
proof -
  have "(2::real) powi ((e + 1) + (52 - e)) = 2 powi (e + 1) * 2 powi (52 - e)"
    by (rule power_int_add) simp
  then show ?thesis by simp
qed

lemma mantissa_bounds:
  assumes "0 < x"
  shows "2 ^ 52 \<le> x * 2 powi (52 - expo x)" and "x * 2 powi (52 - expo x) < 2 ^ 53"
proof -
  have s: "(0::real) < 2 powi (52 - expo x)" by simp
  from expo_bounds(1) [OF assms] s
  have "2 powi expo x * 2 powi (52 - expo x) \<le> x * 2 powi (52 - expo x)"
    by (simp only: mult_le_cancel_right_pos)
  then show "2 ^ 52 \<le> x * 2 powi (52 - expo x)" by (simp only: powi_scale)
  from expo_bounds(2) [OF assms] s
  have "x * 2 powi (52 - expo x) < 2 powi (expo x + 1) * 2 powi (52 - expo x)"
    by (simp only: mult_less_cancel_right_pos)
  then show "x * 2 powi (52 - expo x) < 2 ^ 53" by (simp only: powi_scale1)
qed

lemma rounded_mantissa_bounds:
  assumes "0 < x"
  shows "2 ^ 52 \<le> roundHalfEven (x * 2 powi (52 - expo x))"
    and "roundHalfEven (x * 2 powi (52 - expo x)) \<le> 2 ^ 53"
proof -
  note m = mantissa_bounds [OF assms]
  have "roundHalfEven (of_int (2 ^ 52)) \<le> roundHalfEven (x * 2 powi (52 - expo x))"
    by (rule roundHalfEven_mono) (use m(1) in simp)
  then show "2 ^ 52 \<le> roundHalfEven (x * 2 powi (52 - expo x))"
    by (simp only: roundHalfEven_int)
  have "roundHalfEven (x * 2 powi (52 - expo x)) \<le> roundHalfEven (of_int (2 ^ 53))"
    by (rule roundHalfEven_mono) (use m(2) in simp)
  then show "roundHalfEven (x * 2 powi (52 - expo x)) \<le> 2 ^ 53"
    by (simp only: roundHalfEven_int)
qed

lemma nearestDouble_range:
  assumes "0 < x"
  shows "2 powi expo x \<le> nearestDouble x" and "nearestDouble x \<le> 2 powi (expo x + 1)"
proof -
  define t :: real where "t = 2 powi (expo x - 52)"
  have t: "0 < t" by (simp add: t_def)
  have n: "nearestDouble x = of_int (roundHalfEven (x * 2 powi (52 - expo x))) * t"
    using assms by (simp add: nearestDouble_def t_def)
  have e1: "(2::real) powi expo x = 2 ^ 52 * t"
  proof -
    have "(2::real) powi (52 + (expo x - 52)) = 2 powi 52 * 2 powi (expo x - 52)"
      by (rule power_int_add) simp
    then show ?thesis by (simp add: t_def)
  qed
  have e2: "(2::real) powi (expo x + 1) = 2 ^ 53 * t"
  proof -
    have "(2::real) powi (53 + (expo x - 52)) = 2 powi 53 * 2 powi (expo x - 52)"
      by (rule power_int_add) simp
    then show ?thesis by (simp add: t_def add.commute)
  qed
  note r = rounded_mantissa_bounds [OF assms]
  from r(1) have "(2::real) ^ 52 \<le> of_int (roundHalfEven (x * 2 powi (52 - expo x)))"
    by (metis of_int_le_iff of_int_numeral of_int_power)
  with t show "2 powi expo x \<le> nearestDouble x"
    by (simp only: e1 n mult_le_cancel_right_pos)
  from r(2) have "of_int (roundHalfEven (x * 2 powi (52 - expo x))) \<le> (2::real) ^ 53"
    by (metis of_int_le_iff of_int_numeral of_int_power)
  with t show "nearestDouble x \<le> 2 powi (expo x + 1)"
    by (simp only: e2 n mult_le_cancel_right_pos)
qed

lemma nearestDouble_pos: "0 < x \<Longrightarrow> 0 < nearestDouble x"
proof -
  assume x: "0 < x"
  have "(0::real) < 2 powi expo x" by simp
  also have "\<dots> \<le> nearestDouble x" using x by (rule nearestDouble_range)
  finally show ?thesis .
qed

lemma nearestDouble_error:
  assumes "0 < x"
  shows "x * (1 - 1 / 2 ^ 53) \<le> nearestDouble x" and "nearestDouble x \<le> x * (1 + 1 / 2 ^ 53)"
proof -
  define s :: real where "s = 2 powi (52 - expo x)"
  define t :: real where "t = 2 powi (expo x - 52)"
  define R :: real where "R = of_int (roundHalfEven (x * s))"
  have s: "0 < s" and t: "0 < t" by (simp_all add: s_def t_def)
  have st: "s * t = 1" unfolding s_def t_def by (rule powi_cancel)
  have n: "nearestDouble x = R * t"
    using assms by (simp add: nearestDouble_def R_def s_def t_def)
  have x: "x = (x * s) * t" using st by (simp add: mult.assoc)
  have m: "2 ^ 52 \<le> x * s" unfolding s_def using assms by (rule mantissa_bounds)
  have lo: "x * s - 1 / 2 \<le> R"
    unfolding R_def by (rule roundHalfEven_lower)
  have hi: "R \<le> x * s + 1 / 2"
    unfolding R_def by (rule roundHalfEven_upper)
  have h: "1 / 2 \<le> x * s / 2 ^ 53" using m by simp
  from lo h have "x * s * (1 - 1 / 2 ^ 53) \<le> R" by (simp add: algebra_simps)
  with t have "x * s * (1 - 1 / 2 ^ 53) * t \<le> R * t"
    by (simp only: mult_le_cancel_right_pos)
  moreover have "x * s * (1 - 1 / 2 ^ 53) * t = x * (1 - 1 / 2 ^ 53)"
    using st by (simp add: mult.assoc mult.left_commute [of _ t] mult.commute [of _ t])
  ultimately show "x * (1 - 1 / 2 ^ 53) \<le> nearestDouble x" by (simp only: n)
  from hi h have "R \<le> x * s * (1 + 1 / 2 ^ 53)" by (simp add: algebra_simps)
  with t have "R * t \<le> x * s * (1 + 1 / 2 ^ 53) * t"
    by (simp only: mult_le_cancel_right_pos)
  moreover have "x * s * (1 + 1 / 2 ^ 53) * t = x * (1 + 1 / 2 ^ 53)"
    using st by (simp add: mult.assoc mult.left_commute [of _ t] mult.commute [of _ t])
  ultimately show "nearestDouble x \<le> x * (1 + 1 / 2 ^ 53)" by (simp only: n)
qed

lemma expo_mono:
  assumes "0 < x" and "x \<le> y"
  shows "expo x \<le> expo y"
proof -
  from assms have y: "0 < y" by simp
  have "2 powi expo x \<le> x" using assms(1) by (rule expo_bounds)
  also note assms(2)
  also have "y < 2 powi (expo y + 1)" using y by (rule expo_bounds)
  finally have "expo x < expo y + 1" by (rule powi_less_imp_less)
  then show ?thesis by simp
qed

lemma nearestDouble_mono:
  assumes "0 < x" and "x \<le> y"
  shows "nearestDouble x \<le> nearestDouble y"
proof (cases "expo x = expo y")
  case True
  from assms have y: "0 < y" by simp
  have t: "(0::real) < 2 powi (expo y - 52)" and s: "(0::real) < 2 powi (52 - expo y)"
    by simp_all
  from assms(2) s have "x * 2 powi (52 - expo y) \<le> y * 2 powi (52 - expo y)"
    by (simp only: mult_le_cancel_right_pos)
  then have "roundHalfEven (x * 2 powi (52 - expo y)) \<le> roundHalfEven (y * 2 powi (52 - expo y))"
    by (rule roundHalfEven_mono)
  then have "(of_int (roundHalfEven (x * 2 powi (52 - expo y))) :: real)
               \<le> of_int (roundHalfEven (y * 2 powi (52 - expo y)))"
    by (simp only: of_int_le_iff)
  with t have "of_int (roundHalfEven (x * 2 powi (52 - expo y))) * (2::real) powi (expo y - 52)
               \<le> of_int (roundHalfEven (y * 2 powi (52 - expo y))) * 2 powi (expo y - 52)"
    by (simp only: mult_le_cancel_right_pos)
  then show ?thesis
    using assms(1) y True by (simp add: nearestDouble_def)
next
  case False
  from assms have y: "0 < y" by simp
  from False expo_mono [OF assms] have "expo x + 1 \<le> expo y" by simp
  then have "(2::real) powi (expo x + 1) \<le> 2 powi expo y"
    by (rule power_int_increasing) simp
  moreover have "nearestDouble x \<le> 2 powi (expo x + 1)"
    using assms(1) by (rule nearestDouble_range)
  moreover have "2 powi expo y \<le> nearestDouble y"
    using y by (rule nearestDouble_range)
  ultimately show ?thesis by simp
qed

lemma nearestDouble_eval:
  assumes "0 < x" and "2 powi e \<le> x" and "x < 2 powi (e + 1)"
  shows "nearestDouble x = of_int (roundHalfEven (x * 2 powi (52 - e))) * 2 powi (e - 52)"
  using assms(1) expo_unique [OF assms] by (simp add: nearestDouble_def)

lemma nearestDouble_exact:
  assumes "0 < x" and "2 powi e \<le> x" and "x < 2 powi (e + 1)"
      and "x * 2 powi (52 - e) = of_int k"
  shows "nearestDouble x = x"
proof -
  have "nearestDouble x = (x * 2 powi (52 - e)) * 2 powi (e - 52)"
    by (simp only: nearestDouble_eval [OF assms(1,2,3)] assms(4) roundHalfEven_int)
  then show ?thesis using powi_cancel [of e] by (simp add: mult.assoc)
qed

lemma nearestDouble_50: "nearestDouble 50 = 50"
  by (rule nearestDouble_exact [where e = 5 and k = "50 * 2 ^ 47"]) simp_all

lemma nearestDouble_1: "nearestDouble 1 = 1"
  by (rule nearestDouble_exact [where e = 0 and k = "2 ^ 52"]) simp_all

section \<open>The size of the emblem\<close>

lemma tolerance_facts:
  "(0::real) < (1 - 1 / 2 ^ 53)\<^sup>2" "((1::real) - 1 / 2 ^ 53)\<^sup>2 \<le> 1" "(1::real) \<le> (1 + 1 / 2 ^ 53)\<^sup>2"
  by (simp_all add: power2_eq_square)

lemma dmul_ddiv_bounds:
  assumes "0 < x" and "0 < a" and "0 < b"
  shows "0 < dmul x (ddiv a b)"
    and "x * (a / b) * (1 - 1 / 2 ^ 53)\<^sup>2 \<le> dmul x (ddiv a b)"
    and "dmul x (ddiv a b) \<le> x * (a / b) * (1 + 1 / 2 ^ 53)\<^sup>2"
proof -
  define u :: real where "u = 1 / 2 ^ 53"
  have u: "0 \<le> 1 - u" "0 \<le> 1 + u" by (simp_all add: u_def)
  define q where "q = a / b"
  define r where "r = nearestDouble q"
  from assms have q: "0 < q" by (simp add: q_def)
  then have r: "0 < r" unfolding r_def by (rule nearestDouble_pos)
  have r1: "q * (1 - u) \<le> r" and r2: "r \<le> q * (1 + u)"
    unfolding r_def u_def using q by (rule nearestDouble_error)+
  from assms(1) r have xr: "0 < x * r" by simp
  then show "0 < dmul x (ddiv a b)"
    unfolding dmul_def ddiv_def q_def [symmetric] r_def [symmetric] by (rule nearestDouble_pos)
  have z1: "x * r * (1 - u) \<le> nearestDouble (x * r)"
    and z2: "nearestDouble (x * r) \<le> x * r * (1 + u)"
    unfolding u_def using xr by (rule nearestDouble_error)+
  have "x * q * (1 - u)\<^sup>2 = x * (q * (1 - u)) * (1 - u)"
    by (simp add: power2_eq_square mult.assoc)
  also have "\<dots> \<le> x * r * (1 - u)"
    using r1 assms(1) u(1) by (simp add: mult_left_mono mult_right_mono)
  also note z1
  finally show "x * (a / b) * (1 - 1 / 2 ^ 53)\<^sup>2 \<le> dmul x (ddiv a b)"
    by (simp only: dmul_def ddiv_def q_def r_def u_def)
  note z2
  also have "x * r * (1 + u) \<le> x * (q * (1 + u)) * (1 + u)"
    using r2 assms(1) u(2) by (simp add: mult_left_mono mult_right_mono)
  also have "\<dots> = x * q * (1 + u)\<^sup>2"
    by (simp add: power2_eq_square mult.assoc)
  finally show "dmul x (ddiv a b) \<le> x * (a / b) * (1 + 1 / 2 ^ 53)\<^sup>2"
    by (simp only: dmul_def ddiv_def q_def r_def u_def)
qed

lemma shrink_le_50:
  assumes "0 < x" and "x \<le> 50" and "50 < y"
  shows "dmul x (ddiv 50 y) \<le> 50"
proof -
  from assms(3) have y: "0 < y" by simp
  then have q: "0 < 50 / y" "50 / y \<le> 1" using assms(3) by simp_all
  have "nearestDouble (50 / y) \<le> nearestDouble 1"
    using q by (rule nearestDouble_mono)
  then have r: "ddiv 50 y \<le> 1" by (simp only: ddiv_def nearestDouble_1)
  have rp: "0 < ddiv 50 y" unfolding ddiv_def using q(1) by (rule nearestDouble_pos)
  from r assms(1) have "x * ddiv 50 y \<le> x * 1" by (simp only: mult_le_cancel_left_pos)
  with assms(2) have le: "x * ddiv 50 y \<le> 50" by simp
  from assms(1) rp have "0 < x * ddiv 50 y" by simp
  then have "nearestDouble (x * ddiv 50 y) \<le> nearestDouble 50"
    using le by (rule nearestDouble_mono)
  then show ?thesis by (simp only: dmul_def nearestDouble_50)
qed

lemma scaleLogo_steps: "scaleLogo w h = fitHeight (fitWidth (w, h))"
  by (simp add: scaleLogo_def fitHeight_def fitWidth_def Let_def)

lemma fitWidth_props:
  assumes "0 < w" and "0 < h"
  shows "0 < fst (fitWidth (w, h))" and "fst (fitWidth (w, h)) \<le> 50"
    and "0 < snd (fitWidth (w, h))"
    and "fst (fitWidth (w, h)) * h * (1 - 1 / 2 ^ 53)\<^sup>2 \<le> snd (fitWidth (w, h)) * w"
    and "snd (fitWidth (w, h)) * w \<le> fst (fitWidth (w, h)) * h * (1 + 1 / 2 ^ 53)\<^sup>2"
proof -
  have "0 < fst (fitWidth (w, h)) \<and> fst (fitWidth (w, h)) \<le> 50
        \<and> 0 < snd (fitWidth (w, h))
        \<and> fst (fitWidth (w, h)) * h * (1 - 1 / 2 ^ 53)\<^sup>2 \<le> snd (fitWidth (w, h)) * w
        \<and> snd (fitWidth (w, h)) * w \<le> fst (fitWidth (w, h)) * h * (1 + 1 / 2 ^ 53)\<^sup>2"
  proof (cases "50 < w")
    case True
    define z where "z = dmul h (ddiv 50 w)"
    have f: "fitWidth (w, h) = (50, z)" using True by (simp add: fitWidth_def z_def)
    have fifty: "(0::real) < 50" by simp
    note b = dmul_ddiv_bounds [OF assms(2) fifty assms(1), folded z_def]
    from b(2) assms(1) have "h * (50 / w) * (1 - 1 / 2 ^ 53)\<^sup>2 * w \<le> z * w"
      by (simp only: mult_le_cancel_right_pos)
    moreover have "h * (50 / w) * (1 - 1 / 2 ^ 53)\<^sup>2 * w = 50 * h * (1 - 1 / 2 ^ 53)\<^sup>2"
      using assms(1) by simp
    ultimately have lo: "50 * h * (1 - 1 / 2 ^ 53)\<^sup>2 \<le> z * w" by simp
    from b(3) assms(1) have "z * w \<le> h * (50 / w) * (1 + 1 / 2 ^ 53)\<^sup>2 * w"
      by (simp only: mult_le_cancel_right_pos)
    moreover have "h * (50 / w) * (1 + 1 / 2 ^ 53)\<^sup>2 * w = 50 * h * (1 + 1 / 2 ^ 53)\<^sup>2"
      using assms(1) by simp
    ultimately have hi: "z * w \<le> 50 * h * (1 + 1 / 2 ^ 53)\<^sup>2" by simp
    from b(1) lo hi show ?thesis by (simp add: f)
  next
    case False
    then have f: "fitWidth (w, h) = (w, h)" by (simp add: fitWidth_def)
    from assms have wh: "0 < w * h" by simp
    have "w * h * (1 - 1 / 2 ^ 53)\<^sup>2 \<le> w * h * 1"
      using wh tolerance_facts(2) by (simp only: mult_le_cancel_left_pos)
    moreover have "w * h * 1 \<le> w * h * (1 + 1 / 2 ^ 53)\<^sup>2"
      using wh tolerance_facts(3) by (simp only: mult_le_cancel_left_pos)
    ultimately show ?thesis using assms False by (simp add: f mult.commute)
  qed
  then show "0 < fst (fitWidth (w, h))" and "fst (fitWidth (w, h)) \<le> 50"
    and "0 < snd (fitWidth (w, h))"
    and "fst (fitWidth (w, h)) * h * (1 - 1 / 2 ^ 53)\<^sup>2 \<le> snd (fitWidth (w, h)) * w"
    and "snd (fitWidth (w, h)) * w \<le> fst (fitWidth (w, h)) * h * (1 + 1 / 2 ^ 53)\<^sup>2"
    by simp_all
qed

lemma fitHeight_props:
  assumes "0 < w" and "w \<le> 50" and "0 < h"
  shows "0 < fst (fitHeight (w, h))" and "fst (fitHeight (w, h)) \<le> 50"
    and "0 < snd (fitHeight (w, h))" and "snd (fitHeight (w, h)) \<le> 50"
    and "w * snd (fitHeight (w, h)) * (1 - 1 / 2 ^ 53)\<^sup>2 \<le> fst (fitHeight (w, h)) * h"
    and "fst (fitHeight (w, h)) * h \<le> w * snd (fitHeight (w, h)) * (1 + 1 / 2 ^ 53)\<^sup>2"
proof -
  have "0 < fst (fitHeight (w, h)) \<and> fst (fitHeight (w, h)) \<le> 50
        \<and> 0 < snd (fitHeight (w, h)) \<and> snd (fitHeight (w, h)) \<le> 50
        \<and> w * snd (fitHeight (w, h)) * (1 - 1 / 2 ^ 53)\<^sup>2 \<le> fst (fitHeight (w, h)) * h
        \<and> fst (fitHeight (w, h)) * h \<le> w * snd (fitHeight (w, h)) * (1 + 1 / 2 ^ 53)\<^sup>2"
  proof (cases "50 < h")
    case True
    define z where "z = dmul w (ddiv 50 h)"
    have f: "fitHeight (w, h) = (z, 50)" using True by (simp add: fitHeight_def z_def)
    have fifty: "(0::real) < 50" by simp
    note b = dmul_ddiv_bounds [OF assms(1) fifty assms(3), folded z_def]
    have z50: "z \<le> 50" unfolding z_def using assms(1,2) True by (rule shrink_le_50)
    from b(2) assms(3) have "w * (50 / h) * (1 - 1 / 2 ^ 53)\<^sup>2 * h \<le> z * h"
      by (simp only: mult_le_cancel_right_pos)
    moreover have "w * (50 / h) * (1 - 1 / 2 ^ 53)\<^sup>2 * h = w * 50 * (1 - 1 / 2 ^ 53)\<^sup>2"
      using assms(3) by simp
    ultimately have lo: "w * 50 * (1 - 1 / 2 ^ 53)\<^sup>2 \<le> z * h" by simp
    from b(3) assms(3) have "z * h \<le> w * (50 / h) * (1 + 1 / 2 ^ 53)\<^sup>2 * h"
      by (simp only: mult_le_cancel_right_pos)
    moreover have "w * (50 / h) * (1 + 1 / 2 ^ 53)\<^sup>2 * h = w * 50 * (1 + 1 / 2 ^ 53)\<^sup>2"
      using assms(3) by simp
    ultimately have hi: "z * h \<le> w * 50 * (1 + 1 / 2 ^ 53)\<^sup>2" by simp
    from b(1) z50 lo hi show ?thesis by (simp add: f)
  next
    case False
    then have f: "fitHeight (w, h) = (w, h)" by (simp add: fitHeight_def)
    from assms have wh: "0 < w * h" by simp
    have "w * h * (1 - 1 / 2 ^ 53)\<^sup>2 \<le> w * h * 1"
      using wh tolerance_facts(2) by (simp only: mult_le_cancel_left_pos)
    moreover have "w * h * 1 \<le> w * h * (1 + 1 / 2 ^ 53)\<^sup>2"
      using wh tolerance_facts(3) by (simp only: mult_le_cancel_left_pos)
    ultimately show ?thesis using assms False by (simp add: f)
  qed
  then show "0 < fst (fitHeight (w, h))" and "fst (fitHeight (w, h)) \<le> 50"
    and "0 < snd (fitHeight (w, h))" and "snd (fitHeight (w, h)) \<le> 50"
    and "w * snd (fitHeight (w, h)) * (1 - 1 / 2 ^ 53)\<^sup>2 \<le> fst (fitHeight (w, h)) * h"
    and "fst (fitHeight (w, h)) * h \<le> w * snd (fitHeight (w, h)) * (1 + 1 / 2 ^ 53)\<^sup>2"
    by simp_all
qed

lemma quotient_bounds:
  fixes a b l u :: real
  assumes "0 < l" and "l \<le> a" and "a \<le> u" and "l \<le> b" and "b \<le> u"
  shows "l / u \<le> b / a" and "b / a \<le> u / l"
proof -
  from assms have a: "0 < a" and u: "0 < u" by simp_all
  show "l / u \<le> b / a"
    by (rule frac_le) (use assms a in simp_all)
  show "b / a \<le> u / l"
    by (rule frac_le) (use assms a in simp_all)
qed

lemma roundHalfEven_near:
  assumes "of_int k - 1 / 2 < y" and "y < of_int k + 1 / 2"
  shows "roundHalfEven y = k"
proof (cases "of_int k \<le> y")
  case True
  with assms(2) have "\<lfloor>y\<rfloor> = k" by linarith
  with assms(2) show ?thesis by (simp add: roundHalfEven_def Let_def)
next
  case False
  with assms(1) have f: "\<lfloor>y\<rfloor> = k - 1" by linarith
  from assms(1) have "1 / 2 < y - of_int (k - 1)" by simp
  then show ?thesis by (simp add: roundHalfEven_def Let_def f)
qed

lemma nearestDouble_value:
  assumes "0 < x" and "2 powi e \<le> x" and "x < 2 powi (e + 1)"
      and "of_int k - 1 / 2 < x * 2 powi (52 - e)" and "x * 2 powi (52 - e) < of_int k + 1 / 2"
  shows "nearestDouble x = of_int k * 2 powi (e - 52)"
  by (simp only: nearestDouble_eval [OF assms(1,2,3)] roundHalfEven_near [OF assms(4,5)])

lemma ddiv_50_78: "ddiv 50 78 = 5773845676116021 / 2 ^ 53"
proof -
  have "nearestDouble (50 / 78) = of_int 5773845676116021 * 2 powi (- 1 - 52)"
    by (rule nearestDouble_value) simp_all
  then show ?thesis by (simp add: ddiv_def)
qed

lemma dmul_78: "dmul 78 (5773845676116021 / 2 ^ 53) = 50 + 1 / 2 ^ 47"
proof -
  have "nearestDouble (78 * (5773845676116021 / 2 ^ 53)) = of_int 7036874417766401 * 2 powi (5 - 52)"
    by (rule nearestDouble_value) simp_all
  then show ?thesis by (simp add: dmul_def)
qed

lemma ddiv_50_above: "ddiv 50 (50 + 1 / 2 ^ 47) = 9007199254740991 / 2 ^ 53"
proof -
  have "nearestDouble (50 / (50 + 1 / 2 ^ 47)) = of_int 9007199254740991 * 2 powi (- 1 - 52)"
    by (rule nearestDouble_value) simp_all
  then show ?thesis by (simp add: ddiv_def)
qed

lemma dmul_50_below: "dmul 50 (9007199254740991 / 2 ^ 53) = 50 - 1 / 2 ^ 47"
proof -
  have "nearestDouble (50 * (9007199254740991 / 2 ^ 53)) = of_int 7036874417766399 * 2 powi (5 - 52)"
    by (rule nearestDouble_value) simp_all
  then show ?thesis by (simp add: dmul_def)
qed

lemma fitWidth_78: "fitWidth (78, 78) = (50, 50 + 1 / 2 ^ 47)"
  unfolding fitWidth_def fst_conv snd_conv ddiv_50_78 dmul_78 by simp

lemma fitHeight_78: "fitHeight (78, 78) = (50 + 1 / 2 ^ 47, 50)"
  unfolding fitHeight_def fst_conv snd_conv ddiv_50_78 dmul_78 by simp

lemma fitHeight_above: "fitHeight (50, 50 + 1 / 2 ^ 47) = (50 - 1 / 2 ^ 47, 50)"
  unfolding fitHeight_def fst_conv snd_conv ddiv_50_above dmul_50_below by simp

lemma fitWidth_above: "fitWidth (50 + 1 / 2 ^ 47, 50) = (50, 50 - 1 / 2 ^ 47)"
  unfolding fitWidth_def fst_conv snd_conv ddiv_50_above dmul_50_below by simp

lemma ddiv_50_300: "ddiv 50 300 = 6004799503160661 / 2 ^ 55"
proof -
  have "nearestDouble (50 / 300) = of_int 6004799503160661 * 2 powi (- 3 - 52)"
    by (rule nearestDouble_value) simp_all
  then show ?thesis by (simp add: ddiv_def)
qed

lemma dmul_100: "dmul 100 (6004799503160661 / 2 ^ 55) = 2345624805922133 / 2 ^ 47"
proof -
  have "nearestDouble (100 * (6004799503160661 / 2 ^ 55)) = of_int 4691249611844266 * 2 powi (4 - 52)"
    by (rule nearestDouble_value) simp_all
  then show ?thesis by (simp add: dmul_def)
qed

lemma fitWidth_300: "fitWidth (300, 100) = (50, 2345624805922133 / 2 ^ 47)"
  unfolding fitWidth_def fst_conv snd_conv ddiv_50_300 dmul_100 by simp

lemma fitHeight_below: "fitHeight (50, 2345624805922133 / 2 ^ 47) = (50, 2345624805922133 / 2 ^ 47)"
  by (simp add: fitHeight_def)

lemma ddiv_exact_examples:
  "ddiv 50 100 = 1 / 2" "ddiv 50 200 = 1 / 4"
proof -
  have "nearestDouble (50 / 100) = 50 / 100"
    by (rule nearestDouble_exact [where e = "- 1" and k = "2 ^ 52"]) simp_all
  then show "ddiv 50 100 = 1 / 2" by (simp add: ddiv_def)
  have "nearestDouble (50 / 200) = 50 / 200"
    by (rule nearestDouble_exact [where e = "- 2" and k = "2 ^ 52"]) simp_all
  then show "ddiv 50 200 = 1 / 4" by (simp add: ddiv_def)
qed

lemma dmul_exact_examples:
  "dmul 400 (1 / 2) = 200" "dmul 50 (1 / 4) = 25 / 2"
proof -
  have "nearestDouble (400 * (1 / 2)) = 400 * (1 / 2)"
    by (rule nearestDouble_exact [where e = 7 and k = "200 * 2 ^ 45"]) simp_all
  then show "dmul 400 (1 / 2) = 200" by (simp add: dmul_def)
  have "nearestDouble (50 * (1 / 4)) = 50 * (1 / 4)"
    by (rule nearestDouble_exact [where e = 3 and k = "25 * 2 ^ 48"]) simp_all
  then show "dmul 50 (1 / 4) = 25 / 2" by (simp add: dmul_def)
qed

lemma scaleLogo_100_400: "scaleLogo 100 400 = (25 / 2, 50)"
  by (simp add: scaleLogo_def ddiv_exact_examples dmul_exact_examples)

lemma scaleLogo_ratio:
  assumes "0 < w" and "0 < h"
  shows "w / h * ((1 - 1 / 2 ^ 53) / (1 + 1 / 2 ^ 53))\<^sup>2
           \<le> fst (scaleLogo w h) / snd (scaleLogo w h)"
    and "fst (scaleLogo w h) / snd (scaleLogo w h)
           \<le> w / h * ((1 + 1 / 2 ^ 53) / (1 - 1 / 2 ^ 53))\<^sup>2"
proof -
  define L :: real where "L = (1 - 1 / 2 ^ 53)\<^sup>2"
  define U :: real where "U = (1 + 1 / 2 ^ 53)\<^sup>2"
  have L: "0 < L" unfolding L_def by (rule tolerance_facts)
  define w1 where "w1 = fst (fitWidth (w, h))"
  define h1 where "h1 = snd (fitWidth (w, h))"
  define w2 where "w2 = fst (fitHeight (w1, h1))"
  define h2 where "h2 = snd (fitHeight (w1, h1))"
  note p = fitWidth_props [OF assms, folded w1_def h1_def L_def U_def]
  note q = fitHeight_props [OF p(1,2,3), folded w2_def h2_def L_def U_def]
  have s: "scaleLogo w h = (w2, h2)"
    by (simp add: scaleLogo_steps w2_def h2_def w1_def h1_def)
  define a where "a = h1 * w / (w1 * h)"
  define b where "b = w2 * h1 / (w1 * h2)"
  from p(1) assms(2) have d1: "0 < w1 * h" by simp
  from p(1) q(3) have d2: "0 < w1 * h2" by simp
  have a1: "L \<le> a" unfolding a_def using d1 p(4) by (simp add: pos_le_divide_eq mult.commute mult.left_commute)
  have a2: "a \<le> U" unfolding a_def using d1 p(5) by (simp add: pos_divide_le_eq mult.commute mult.left_commute)
  have b1: "L \<le> b" unfolding b_def using d2 q(5) by (simp add: pos_le_divide_eq mult.commute mult.left_commute)
  have b2: "b \<le> U" unfolding b_def using d2 q(6) by (simp add: pos_divide_le_eq mult.commute mult.left_commute)
  note r = quotient_bounds [OF L a1 a2 b1 b2]
  have e: "w2 / h2 = w / h * (b / a)"
    using assms p(1,3) q(1,3) by (simp add: a_def b_def)
  from assms have wh: "0 \<le> w / h" by simp
  have "w / h * (L / U) \<le> w / h * (b / a)" using r(1) wh by (rule mult_left_mono)
  then show "w / h * ((1 - 1 / 2 ^ 53) / (1 + 1 / 2 ^ 53))\<^sup>2
           \<le> fst (scaleLogo w h) / snd (scaleLogo w h)"
    by (simp only: s fst_conv snd_conv e L_def U_def power_divide)
  have "w / h * (b / a) \<le> w / h * (U / L)" using r(2) wh by (rule mult_left_mono)
  then show "fst (scaleLogo w h) / snd (scaleLogo w h)
           \<le> w / h * ((1 + 1 / 2 ^ 53) / (1 - 1 / 2 ^ 53))\<^sup>2"
    by (simp only: s fst_conv snd_conv e L_def U_def power_divide)
qed

lemma scaleLogo_box:
  assumes "0 < w" and "0 < h"
  shows "fst (scaleLogo w h) \<le> 50" and "snd (scaleLogo w h) \<le> 50"
    and "0 < fst (scaleLogo w h)" and "0 < snd (scaleLogo w h)"
proof -
  note p = fitWidth_props [OF assms]
  note q = fitHeight_props [OF p(1,2,3)]
  have s: "scaleLogo w h = fitHeight (fst (fitWidth (w, h)), snd (fitWidth (w, h)))"
    by (simp add: scaleLogo_steps)
  from q show "fst (scaleLogo w h) \<le> 50" and "snd (scaleLogo w h) \<le> 50"
    and "0 < fst (scaleLogo w h)" and "0 < snd (scaleLogo w h)"
    by (simp_all only: s)
qed

lemma scaleLogo_small: "w \<le> 50 \<Longrightarrow> h \<le> 50 \<Longrightarrow> scaleLogo w h = (w, h)"
  by (simp add: scaleLogo_def)

section \<open>The composer\<close>

text \<open>
  Claim C7, as amended. For an image of positive width and height (32-bit integers), the
  scaled width and height are positive and at most 50 each; their ratio is the ratio of
  the image within the rounding of the two divisions and two multiplications, a factor from
  \<open>((1 - u) / (1 + u)) ^ 2\<close> to \<open>((1 + u) / (1 - u)) ^ 2\<close> with \<open>u = 1 / 2 ^ 53\<close>; the result
  is the width step followed by the height step on its result; and an image that is
  within the box keeps its size.
\<close>

theorem scaleLogo_fits:
  fixes w h :: nat
  assumes "0 < w" and "w < 2 ^ 32" and "0 < h" and "h < 2 ^ 32"
  shows "fst (scaleLogo (real w) (real h)) \<le> 50 \<and> snd (scaleLogo (real w) (real h)) \<le> 50
         \<and> 0 < fst (scaleLogo (real w) (real h)) \<and> 0 < snd (scaleLogo (real w) (real h))
         \<and> real w / real h * ((1 - 1 / 2 ^ 53) / (1 + 1 / 2 ^ 53))\<^sup>2
             \<le> fst (scaleLogo (real w) (real h)) / snd (scaleLogo (real w) (real h))
         \<and> fst (scaleLogo (real w) (real h)) / snd (scaleLogo (real w) (real h))
             \<le> real w / real h * ((1 + 1 / 2 ^ 53) / (1 - 1 / 2 ^ 53))\<^sup>2
         \<and> scaleLogo (real w) (real h) = fitHeight (fitWidth (real w, real h))
         \<and> (w \<le> 50 \<and> h \<le> 50 \<longrightarrow> scaleLogo (real w) (real h) = (real w, real h))"
proof -
  from assms have p: "0 < real w" "0 < real h" by simp_all
  have small: "w \<le> 50 \<and> h \<le> 50 \<longrightarrow> scaleLogo (real w) (real h) = (real w, real h)"
    by (simp add: scaleLogo_small)
  from scaleLogo_box [OF p] scaleLogo_ratio [OF p] scaleLogo_steps [of "real w" "real h"] small
  show ?thesis by (intro conjI) assumption+
qed

theorem scaleLogo_fits_witness:
  "(0::nat) < 100 \<and> (100::nat) < 2 ^ 32 \<and> (0::nat) < 400 \<and> (400::nat) < 2 ^ 32
   \<and> scaleLogo 100 400 = (25 / 2, 50)
   \<and> fst (scaleLogo 100 400) \<le> 50 \<and> snd (scaleLogo 100 400) \<le> 50
   \<and> 100 / 400 * ((1 - 1 / 2 ^ 53) / (1 + 1 / 2 ^ 53))\<^sup>2
       \<le> fst (scaleLogo 100 400) / snd (scaleLogo 100 400)
   \<and> fst (scaleLogo 100 400) / snd (scaleLogo 100 400)
       \<le> 100 / 400 * ((1 + 1 / 2 ^ 53) / (1 - 1 / 2 ^ 53))\<^sup>2
   \<and> scaleLogo 100 400 = fitHeight (fitWidth (100, 400))
   \<and> (40::nat) \<le> 50 \<and> (30::nat) \<le> 50 \<and> scaleLogo 40 30 = (40, 30)"
proof -
  have h: "(0::nat) < 100" "(100::nat) < 2 ^ 32" "(0::nat) < 400" "(400::nat) < 2 ^ 32"
    and k: "(0::nat) < 40" "(40::nat) < 2 ^ 32" "(0::nat) < 30" "(30::nat) < 2 ^ 32"
    and c: "(40::nat) \<le> 50" "(30::nat) \<le> 50"
    by simp_all
  have r: "real (100::nat) = 100" "real (400::nat) = 400" "real (40::nat) = 40"
    "real (30::nat) = 30"
    by simp_all
  note a = scaleLogo_fits [OF h, unfolded r]
  note b = scaleLogo_fits [OF k, unfolded r]
  from b c have s: "scaleLogo 40 30 = (40, 30)" by blast
  from a have a1: "fst (scaleLogo 100 400) \<le> 50" and a2: "snd (scaleLogo 100 400) \<le> 50"
    and a3: "100 / 400 * ((1 - 1 / 2 ^ 53) / (1 + 1 / 2 ^ 53))\<^sup>2
       \<le> fst (scaleLogo 100 400) / snd (scaleLogo 100 400)"
    and a4: "fst (scaleLogo 100 400) / snd (scaleLogo 100 400)
       \<le> 100 / 400 * ((1 + 1 / 2 ^ 53) / (1 - 1 / 2 ^ 53))\<^sup>2"
    and a5: "scaleLogo 100 400 = fitHeight (fitWidth (100, 400))"
    by blast+
  from h scaleLogo_100_400 a1 a2 a3 a4 a5 c s show ?thesis by (intro conjI) assumption+
qed

text \<open>
  Claim C7 as written fails. An image of 78 by 78 pixels: the width step gives a height
  just above 50, the height step then a width just below 50, and the square image is
  drawn \<open>1 / 2 ^ 47\<close> narrower than high. Taking the height step first gives the other
  size, so the order of the two steps shows in the result. An image of 300 by 100
  pixels is drawn 50 wide and a little less than a third of 50 high.
\<close>

theorem scaleLogo_fits_counterexample:
  "scaleLogo 78 78 = (50 - 1 / 2 ^ 47, 50)
   \<and> fst (scaleLogo 78 78) / snd (scaleLogo 78 78) \<noteq> 78 / 78
   \<and> fitWidth (fitHeight (78, 78)) = (50, 50 - 1 / 2 ^ 47)
   \<and> scaleLogo 300 100 = (50, 2345624805922133 / 2 ^ 47)
   \<and> fst (scaleLogo 300 100) / snd (scaleLogo 300 100) \<noteq> 300 / 100"
proof -
  have s: "scaleLogo 78 78 = (50 - 1 / 2 ^ 47, 50)"
    by (simp only: scaleLogo_steps fitWidth_78 fitHeight_above)
  have t: "fitWidth (fitHeight (78, 78)) = (50, 50 - 1 / 2 ^ 47)"
    by (simp only: fitHeight_78 fitWidth_above)
  have n: "fst (scaleLogo 78 78) / snd (scaleLogo 78 78) \<noteq> 78 / 78"
    unfolding s by simp
  have u: "scaleLogo 300 100 = (50, 2345624805922133 / 2 ^ 47)"
    by (simp only: scaleLogo_steps fitWidth_300 fitHeight_below)
  have v: "fst (scaleLogo 300 100) / snd (scaleLogo 300 100) \<noteq> 300 / 100"
    unfolding u by simp
  from s n t u v show ?thesis by (intro conjI) assumption+
qed

text \<open>
  Claim C8. For a role that is neither \<open>Ponente\<close> nor \<open>Organizador\<close>, the paragraph
  is the wording of \<open>Asistente\<close>, the same text as for the role \<open>Asistente\<close> itself.
\<close>

theorem getRoleSpecificText_default:
  assumes "data_participantRole data \<noteq> ''Ponente''"
      and "data_participantRole data \<noteq> ''Organizador''"
  shows "getRoleSpecificText data
           = ''ha participado como ASISTENTE en el evento '' @ quote @ data_eventName data @ quote
             @ '', completando satisfactoriamente ''
             @ data_eventDuration data @ '' horas de formaci'' @ [CHR 0xC3, CHR 0xB3] @ ''n.''
         \<and> getRoleSpecificText data
           = getRoleSpecificText (data\<lparr>data_participantRole := ''Asistente''\<rparr>)"
  using assms by (simp add: getRoleSpecificText_def)

theorem getRoleSpecificText_default_witness:
  "data_participantRole (carlos\<lparr>data_participantRole := ''Invitado''\<rparr>) \<noteq> ''Ponente''
   \<and> data_participantRole (carlos\<lparr>data_participantRole := ''Invitado''\<rparr>) \<noteq> ''Organizador''
   \<and> getRoleSpecificText (carlos\<lparr>data_participantRole := ''Invitado''\<rparr>)
       = ''ha participado como ASISTENTE en el evento '' @ quote @ ''Taller de Rust'' @ quote
         @ '', completando satisfactoriamente 8 horas de formaci'' @ [CHR 0xC3, CHR 0xB3] @ ''n.''
   \<and> getRoleSpecificText (carlos\<lparr>data_participantRole := ''Invitado''\<rparr>)
       = getRoleSpecificText (carlos\<lparr>data_participantRole := ''Invitado'',
                                      data_participantRole := ''Asistente''\<rparr>)"
proof -
  have h: "data_participantRole (carlos\<lparr>data_participantRole := ''Invitado''\<rparr>) \<noteq> ''Ponente''"
    "data_participantRole (carlos\<lparr>data_participantRole := ''Invitado''\<rparr>) \<noteq> ''Organizador''"
    by simp_all
  note t = getRoleSpecificText_default [OF h]
  have n: "data_eventName (carlos\<lparr>data_participantRole := ''Invitado''\<rparr>) = ''Taller de Rust''"
    "data_eventDuration (carlos\<lparr>data_participantRole := ''Invitado''\<rparr>) = ''8''"
    by (simp_all add: carlos_def)
  from t [THEN conjunct1] have a:
    "getRoleSpecificText (carlos\<lparr>data_participantRole := ''Invitado''\<rparr>)
       = ''ha participado como ASISTENTE en el evento '' @ quote @ ''Taller de Rust'' @ quote
         @ '', completando satisfactoriamente 8 horas de formaci'' @ [CHR 0xC3, CHR 0xB3] @ ''n.''"
    by (simp only: n) simp
  from h a t [THEN conjunct2] show ?thesis by (intro conjI) assumption+
qed

lemma exec_firstError:
  "exec thr ops pdf = (case firstError thr ops of Some e \<Rightarrow> Inl e | None \<Rightarrow> Inr (pdf @ ops))"
  by (induction ops arbitrary: pdf) (simp_all split: option.splits)

lemma firstError_append:
  "firstError thr (a @ b) = (case firstError thr a of Some e \<Rightarrow> Some e | None \<Rightarrow> firstError thr b)"
  by (induction a) (simp_all split: option.splits)

lemma placeLogo_fails: "logoFails env url \<Longrightarrow> placeLogo env (Some url) pdf = (0, pdf)"
  by (auto simp add: placeLogo_def logoFails_def split: sum.splits prod.splits option.splits)

lemma placeLogo_None: "placeLogo env None pdf = (0, pdf)"
  by (simp add: placeLogo_def)

lemma generateCertificatePDF_steps:
  "generateCertificatePDF env data logoDataUrl
     = (case firstError (throws env) (headerOps env) of
          Some e \<Rightarrow> Inl e
        | None \<Rightarrow>
            (let (logoHeight, pdf') = placeLogo env logoDataUrl (headerOps env)
             in case firstError (throws env) (bodyOps env data logoHeight) of
                  Some e \<Rightarrow> Inl e
                | None \<Rightarrow> Inr (pdf' @ bodyOps env data logoHeight)))"
  by (simp add: generateCertificatePDF_def exec_firstError split: option.splits prod.splits)

lemma generateCertificatePDF_flat:
  assumes "placeLogo env logoDataUrl (headerOps env) = (0, headerOps env)"
  shows "generateCertificatePDF env data logoDataUrl
           = (case firstError (throws env) (headerOps env @ bodyOps env data 0) of
                Some e \<Rightarrow> Inl e
              | None \<Rightarrow> Inr (headerOps env @ bodyOps env data 0))"
  using assms by (simp add: generateCertificatePDF_steps firstError_append split: option.splits)

lemma ddiv_297_2: "ddiv 297 2 = 297 / 2"
  unfolding ddiv_def
  by (rule nearestDouble_exact [where e = 7 and k = "297 * 2 ^ 44"]) simp_all

lemma dadd_50_0: "dadd 50 0 = 50"
  by (simp add: dadd_def nearestDouble_50)

text \<open>
  Claim C6. When the emblem fails, the result is the result of the call without an emblem:
  the calls of the header followed by the calls of the body laid out with a logo height
  of 0, and no image; unless one of these calls throws, and then the result is the error
  of the first one that does. And for every emblem, given or not, loading or not: the
  first call of the header that throws gives its error as the result; otherwise the
  first call of the body that throws does; otherwise the result is the document with
  the body laid out below the emblem.
\<close>

theorem generateCertificatePDF_logo_failure:
  "(logoFails env url \<longrightarrow>
      generateCertificatePDF env data (Some url) = generateCertificatePDF env data None
      \<and> generateCertificatePDF env data (Some url)
          = (case firstError (throws env) (headerOps env @ bodyOps env data 0) of
               Some e \<Rightarrow> Inl e
             | None \<Rightarrow> Inr (headerOps env @ bodyOps env data 0)))
   \<and> generateCertificatePDF env data logoDataUrl
       = (case firstError (throws env) (headerOps env) of
            Some e \<Rightarrow> Inl e
          | None \<Rightarrow>
              (let (logoHeight, pdf') = placeLogo env logoDataUrl (headerOps env)
               in case firstError (throws env) (bodyOps env data logoHeight) of
                    Some e \<Rightarrow> Inl e
                  | None \<Rightarrow> Inr (pdf' @ bodyOps env data logoHeight)))"
proof (intro conjI impI)
  assume f: "logoFails env url"
  show "generateCertificatePDF env data (Some url) = generateCertificatePDF env data None"
    using f by (simp add: generateCertificatePDF_flat placeLogo_fails placeLogo_None)
  show "generateCertificatePDF env data (Some url)
          = (case firstError (throws env) (headerOps env @ bodyOps env data 0) of
               Some e \<Rightarrow> Inl e
             | None \<Rightarrow> Inr (headerOps env @ bodyOps env data 0))"
    using f by (simp add: generateCertificatePDF_flat placeLogo_fails)
next
  show "generateCertificatePDF env data logoDataUrl
       = (case firstError (throws env) (headerOps env) of
            Some e \<Rightarrow> Inl e
          | None \<Rightarrow>
              (let (logoHeight, pdf') = placeLogo env logoDataUrl (headerOps env)
               in case firstError (throws env) (bodyOps env data logoHeight) of
                    Some e \<Rightarrow> Inl e
                  | None \<Rightarrow> Inr (pdf' @ bodyOps env data logoHeight)))"
    by (rule generateCertificatePDF_steps)
qed

theorem generateCertificatePDF_logo_failure_witness:
  "logoFails (brokenImageEnv None) ''data:image/png;base64,AAAA''
   \<and> generateCertificatePDF (brokenImageEnv None) carlos (Some ''data:image/png;base64,AAAA'')
       = generateCertificatePDF (brokenImageEnv None) carlos None
   \<and> generateCertificatePDF (brokenImageEnv None) carlos (Some ''data:image/png;base64,AAAA'')
       = Inr (headerOps (brokenImageEnv None) @ bodyOps (brokenImageEnv None) carlos 0)
   \<and> DrawText [''Se certifica que:''] (297 / 2) 50 \<in> set (bodyOps (brokenImageEnv None) carlos 0)
   \<and> logoFails (brokenImageEnv (Some (Output ''dataurlstring''))) ''data:image/png;base64,AAAA''
   \<and> generateCertificatePDF (brokenImageEnv (Some (Output ''dataurlstring''))) carlos
         (Some ''data:image/png;base64,AAAA'')
       = Inl (JsError ''jsPDF'')
   \<and> generateCertificatePDF (smallImageEnv (Some (Output ''dataurlstring''))) carlos
         (Some ''data:image/png;base64,AAAA'')
       = Inl (JsError ''jsPDF'')
   \<and> generateCertificatePDF (smallImageEnv (Some (SetLineWidth 1))) carlos
         (Some ''data:image/png;base64,AAAA'')
       = Inl (JsError ''jsPDF'')"
proof -
  have h: "logoFails (brokenImageEnv None) ''data:image/png;base64,AAAA''"
    "logoFails (brokenImageEnv (Some (Output ''dataurlstring''))) ''data:image/png;base64,AAAA''"
    by (simp_all add: logoFails_def brokenImageEnv_def)
  have f: "firstError (throws (brokenImageEnv None))
             (headerOps (brokenImageEnv None) @ bodyOps (brokenImageEnv None) carlos 0) = None"
    by (simp add: brokenImageEnv_def headerOps_def bodyOps_def Let_def)
  have g: "firstError (throws (brokenImageEnv (Some (Output ''dataurlstring''))))
             (headerOps (brokenImageEnv (Some (Output ''dataurlstring'')))
              @ bodyOps (brokenImageEnv (Some (Output ''dataurlstring''))) carlos 0)
           = Some (JsError ''jsPDF'')"
    by (simp add: brokenImageEnv_def headerOps_def bodyOps_def Let_def)
  have m: "DrawText [''Se certifica que:''] (297 / 2) 50
             \<in> set (bodyOps (brokenImageEnv None) carlos 0)"
    by (simp add: brokenImageEnv_def bodyOps_def Let_def ddiv_297_2 dadd_50_0)
  note a = generateCertificatePDF_logo_failure
    [of "brokenImageEnv None" "''data:image/png;base64,AAAA''" carlos None, THEN conjunct1, rule_format, OF h(1)]
  note b = generateCertificatePDF_logo_failure
    [of "brokenImageEnv (Some (Output ''dataurlstring''))" "''data:image/png;base64,AAAA''" carlos None,
     THEN conjunct1, rule_format, OF h(2)]
  note c = generateCertificatePDF_logo_failure
    [of "smallImageEnv (Some (Output ''dataurlstring''))" "[]" carlos "Some ''data:image/png;base64,AAAA''",
     THEN conjunct2]
  note d = generateCertificatePDF_logo_failure
    [of "smallImageEnv (Some (SetLineWidth 1))" "[]" carlos "Some ''data:image/png;base64,AAAA''",
     THEN conjunct2]
  from a [THEN conjunct2] have a2: "generateCertificatePDF (brokenImageEnv None) carlos (Some ''data:image/png;base64,AAAA'')
       = Inr (headerOps (brokenImageEnv None) @ bodyOps (brokenImageEnv None) carlos 0)"
    by (simp only: f option.case)
  from b [THEN conjunct2] have b2: "generateCertificatePDF (brokenImageEnv (Some (Output ''dataurlstring''))) carlos
         (Some ''data:image/png;base64,AAAA'')
       = Inl (JsError ''jsPDF'')"
    by (simp only: g option.case)
  have c1: "firstError (throws (smallImageEnv (Some (Output ''dataurlstring''))))
              (headerOps (smallImageEnv (Some (Output ''dataurlstring'')))) = None"
    by (simp add: smallImageEnv_def brokenImageEnv_def headerOps_def)
  have c2: "firstError (throws (smallImageEnv (Some (Output ''dataurlstring''))))
              (bodyOps (smallImageEnv (Some (Output ''dataurlstring''))) carlos x)
            = Some (JsError ''jsPDF'')" for x
    by (simp add: smallImageEnv_def brokenImageEnv_def bodyOps_def Let_def)
  from c have c3: "generateCertificatePDF (smallImageEnv (Some (Output ''dataurlstring''))) carlos
         (Some ''data:image/png;base64,AAAA'')
       = Inl (JsError ''jsPDF'')"
    by (simp add: c1 c2 split: prod.splits)
  have d1: "firstError (throws (smallImageEnv (Some (SetLineWidth 1))))
              (headerOps (smallImageEnv (Some (SetLineWidth 1)))) = Some (JsError ''jsPDF'')"
    by (simp add: smallImageEnv_def brokenImageEnv_def headerOps_def)
  from d have d3: "generateCertificatePDF (smallImageEnv (Some (SetLineWidth 1))) carlos
         (Some ''data:image/png;base64,AAAA'')
       = Inl (JsError ''jsPDF'')"
    by (simp only: d1 option.case)
  from h(1) a [THEN conjunct1] a2 m h(2) b2 c3 d3 show ?thesis by (intro conjI) assumption+
qed

end
